theory Spec2Isabelle
  imports Main "HOL-Library.Sublist"
begin

section \<open>Notes app: the note collection kept under the storage key "notes"\<close>

text \<open>
  The application keeps one JSON array of notes under the AsyncStorage key "notes".
  Four screens touch it: NoteScreen (loadNote, validateContent, saveNote,
  handleContentChange), HomeScreen (loadNotes, deleteNote, getLatestNotesForCategory),
  SummaryScreen (loadNotes with the per-category counts) and SettingsScreen
  (clearAllNotes). Each function below is the function of the same name in the source;
  React state that a function reads or sets is passed in and returned.
\<close>

subsection \<open>Strings\<close>

text \<open>
  A JavaScript string is a sequence of UTF-16 code units and \<open>length\<close> counts them.
  The model uses \<^typ>\<open>string\<close>, one \<^typ>\<open>char\<close> for each code unit below 256. Among
  these, String.prototype.trim removes TAB, LF, VT, FF, CR, SPACE and NBSP.
\<close>

definition isWhiteSpace :: "char \<Rightarrow> bool" where
  "isWhiteSpace c = (of_char c \<in> {9, 10, 11, 12, 13, 32, 160 :: nat})"

definition trim :: "string \<Rightarrow> string" where
  "trim s = rev (dropWhile isWhiteSpace (rev (dropWhile isWhiteSpace s)))"

text \<open>A string is truthy when it is not empty; an absent value (undefined, null) is falsy.\<close>

definition truthy :: "string option \<Rightarrow> bool" where
  "truthy v = (case v of None \<Rightarrow> False | Some s \<Rightarrow> s \<noteq> [])"

definition valueOf :: "string option \<Rightarrow> string" where
  "valueOf v = (case v of None \<Rightarrow> [] | Some s \<Rightarrow> s)"

text \<open>Number.prototype.toString on an integer: its decimal digits, with a sign when negative.\<close>

definition digit :: "nat \<Rightarrow> char" where
  "digit d = char_of (48 + d)"

fun digits :: "nat \<Rightarrow> string" where
  "digits n = (if n < 10 then [digit n] else digits (n div 10) @ [digit (n mod 10)])"

declare digits.simps [simp del]

definition Number_toString :: "int \<Rightarrow> string" where
  "Number_toString i = (if i < 0 then CHR ''-'' # digits (nat (- i)) else digits (nat i))"

subsection \<open>Data model (types/index.ts)\<close>

text \<open>
  \<open>createdAt\<close> and \<open>updatedAt\<close> are declared as ISO timestamps. An ISO timestamp is
  represented by the time value (milliseconds since the epoch) that
  \<open>Date.prototype.toISOString\<close> renders and \<open>new Date(s).getTime()\<close> reads back, so
  a timestamp string is never empty and two of them are equal exactly when their time
  values are.
\<close>

type_synonym timestamp = int

record Note =
  id' :: string
  title :: string
  content :: string
  categoryId :: string
  createdAt :: timestamp
  updatedAt :: timestamp

record Category =
  cid :: string
  name :: string
  color :: string

definition CATEGORIES :: "Category list" where
  "CATEGORIES =
    [\<lparr>cid = ''work-study'', name = ''Work and Study'', color = ''#FF6B6B''\<rparr>,
     \<lparr>cid = ''life'', name = ''Life'', color = ''#4ECDC4''\<rparr>,
     \<lparr>cid = ''health'', name = ''Health and Well-being'', color = ''#45B7D1''\<rparr>]"

definition MAX_CONTENT_LENGTH :: nat where
  "MAX_CONTENT_LENGTH = 200"

definition MIN_CONTENT_LENGTH :: nat where
  "MIN_CONTENT_LENGTH = 1"

subsection \<open>The environment: AsyncStorage and the clock\<close>

text \<open>
  The text held under the key "notes" is classified by what the code does with it:
  the empty string (falsy, so never parsed), a non-empty text on which JSON.parse throws,
  or the text \<open>JSON.stringify(ns)\<close> of an array of notes, which JSON.parse reads back
  as \<open>ns\<close> (the value is taken at its declared type \<open>Note[]\<close>).
\<close>

datatype stored = EmptyText | Unparsable | Stringified "Note list"

datatype exn = StorageRejected | SyntaxError

definition JSON_stringify :: "Note list \<Rightarrow> stored" where
  "JSON_stringify ns = Stringified ns"

fun JSON_parse :: "stored \<Rightarrow> exn + Note list" where
  "JSON_parse (Stringified ns) = Inr ns"
| "JSON_parse EmptyText = Inl SyntaxError"
| "JSON_parse Unparsable = Inl SyntaxError"

text \<open>
  AsyncStorage holds the item under "notes" (absent: \<open>None\<close>); a call on it resolves,
  or rejects when the storage cannot be read or written.
\<close>

record AsyncStorage =
  item :: "stored option"
  readable :: bool
  writable :: bool

definition getItem :: "AsyncStorage \<Rightarrow> exn + stored option" where
  "getItem s = (if readable s then Inr (item s) else Inl StorageRejected)"

definition setItem :: "stored \<Rightarrow> AsyncStorage \<Rightarrow> exn + AsyncStorage" where
  "setItem t s = (if writable s then Inr (s\<lparr>item := Some t\<rparr>) else Inl StorageRejected)"

definition removeItem :: "AsyncStorage \<Rightarrow> exn + AsyncStorage" where
  "removeItem s = (if writable s then Inr (s\<lparr>item := None\<rparr>) else Inl StorageRejected)"

text \<open>
  The clock is read by \<open>Date.now()\<close> and by \<open>new Date()\<close>. \<open>clock w k\<close> is what the
  \<open>k\<close>-th read returns and \<open>reads w\<close> counts the reads made so far, so that two reads
  in one function may or may not see the same millisecond.
\<close>

record World =
  store :: AsyncStorage
  clock :: "nat \<Rightarrow> int"
  reads :: nat

definition Date_now :: "World \<Rightarrow> int \<times> World" where
  "Date_now w = (clock w (reads w), w\<lparr>reads := Suc (reads w)\<rparr>)"

definition new_Date_toISOString :: "World \<Rightarrow> timestamp \<times> World" where
  "new_Date_toISOString w = (clock w (reads w), w\<lparr>reads := Suc (reads w)\<rparr>)"

text \<open>The expression \<open>storedNotes ? JSON.parse(storedNotes) : []\<close> of saveNote.\<close>

definition parseStored :: "stored option \<Rightarrow> exn + Note list" where
  "parseStored storedNotes =
     (case storedNotes of
        None \<Rightarrow> Inr []
      | Some t \<Rightarrow> (if t = EmptyText then Inr [] else JSON_parse t))"

subsection \<open>NoteScreen\<close>

text \<open>The route parameters and the component state of NoteScreen.\<close>

record NoteScreen =
  noteId :: "string option"
  categoryIdParam :: "string option"
  titleS :: string
  contentS :: string
  selectedCategory :: string
  dropdownOpen :: bool
  error :: "string option"

definition NoteScreen_init :: "string option \<Rightarrow> string option \<Rightarrow> NoteScreen" where
  "NoteScreen_init nid cat =
     \<lparr>noteId = nid, categoryIdParam = cat, titleS = [], contentS = [],
      selectedCategory = cid (CATEGORIES ! 0), dropdownOpen = False, error = None\<rparr>"

definition loadNote :: "string \<Rightarrow> NoteScreen \<Rightarrow> World \<Rightarrow> NoteScreen" where
  "loadNote nid st w =
     (case getItem (store w) of
        Inl e \<Rightarrow> st
      | Inr None \<Rightarrow> st
      | Inr (Some t) \<Rightarrow>
          (if t = EmptyText then st
           else (case JSON_parse t of
                   Inl e \<Rightarrow> st
                 | Inr notes \<Rightarrow>
                     (case find (\<lambda>n. id' n = nid) notes of
                        None \<Rightarrow> st
                      | Some note \<Rightarrow>
                          st\<lparr>titleS := title note, contentS := content note,
                             selectedCategory := categoryId note\<rparr>))))"

text \<open>
  The effect run on mount: loadNote is started first but completes after its await, so
  the route's categoryId is applied before the loaded note's fields.
\<close>

definition useEffect :: "NoteScreen \<Rightarrow> World \<Rightarrow> NoteScreen" where
  "useEffect st w =
     (let st1 = (if truthy (categoryIdParam st)
                 then st\<lparr>selectedCategory := valueOf (categoryIdParam st)\<rparr> else st)
      in if truthy (noteId st) then loadNote (valueOf (noteId st)) st1 w else st1)"

text \<open>Pressing an entry of the category dropdown.\<close>

definition pressDropdownItem :: "Category \<Rightarrow> NoteScreen \<Rightarrow> NoteScreen" where
  "pressDropdownItem category st = st\<lparr>selectedCategory := cid category, dropdownOpen := False\<rparr>"

definition validateContent :: "NoteScreen \<Rightarrow> bool \<times> NoteScreen" where
  "validateContent st =
     (if trim (contentS st) = []
      then (False, st\<lparr>error := Some ''Note content is required''\<rparr>)
      else if length (trim (contentS st)) < MIN_CONTENT_LENGTH
      then (False, st\<lparr>error := Some ''Note content must be at least 1 character long''\<rparr>)
      else (True, st\<lparr>error := None\<rparr>))"

text \<open>
  The object literal of saveNote, its fields evaluated in the order written: the id reads
  the clock only without a noteId, createdAt reads it unless the note is found, updatedAt
  always reads it.
\<close>

definition newNote :: "NoteScreen \<Rightarrow> Note list \<Rightarrow> World \<Rightarrow> Note \<times> World" where
  "newNote st notes w =
     (let (i, w1) = (if truthy (noteId st) then (valueOf (noteId st), w)
                     else (let (t, w') = Date_now w in (Number_toString t, w')));
          (c, w2) = (if truthy (noteId st)
                     then (case find (\<lambda>n. Some (id' n) = noteId st) notes of
                             Some n \<Rightarrow> (createdAt n, w1)
                           | None \<Rightarrow> new_Date_toISOString w1)
                     else new_Date_toISOString w1);
          (u, w3) = new_Date_toISOString w2
      in (\<lparr>id' = i, title = titleS st, content = trim (contentS st),
           categoryId = selectedCategory st, createdAt = c, updatedAt = u\<rparr>, w3))"

text \<open>The body of the try block of saveNote; an exception leaves with the world as it is then.\<close>

definition saveNote_try :: "NoteScreen \<Rightarrow> World \<Rightarrow> exn \<times> World + World" where
  "saveNote_try st w =
     (case getItem (store w) of
        Inl e \<Rightarrow> Inl (e, w)
      | Inr storedNotes \<Rightarrow>
          (case parseStored storedNotes of
             Inl e \<Rightarrow> Inl (e, w)
           | Inr notes \<Rightarrow>
               (let (n, w1) = newNote st notes w;
                    notes' = (if truthy (noteId st)
                              then map (\<lambda>note. if Some (id' note) = noteId st then n else note) notes
                              else notes @ [n])
                in case setItem (JSON_stringify notes') (store w1) of
                     Inl e \<Rightarrow> Inl (e, w1)
                   | Inr s' \<Rightarrow> Inr (w1\<lparr>store := s'\<rparr>))))"

datatype outcome = ValidationFailed | NavigatedHome | Alerted string

definition saveNote :: "NoteScreen \<Rightarrow> World \<Rightarrow> outcome \<times> NoteScreen \<times> World" where
  "saveNote st w =
     (case validateContent st of
        (False, st') \<Rightarrow> (ValidationFailed, st', w)
      | (True, st') \<Rightarrow>
          (case saveNote_try st' w of
             Inr w' \<Rightarrow> (NavigatedHome, st', w')
           | Inl (e, w') \<Rightarrow> (Alerted ''Failed to save note. Please try again.'', st', w')))"

definition handleContentChange :: "string \<Rightarrow> NoteScreen \<Rightarrow> NoteScreen" where
  "handleContentChange text st =
     (if length text \<le> MAX_CONTENT_LENGTH
      then (let st1 = st\<lparr>contentS := text\<rparr>
            in if truthy (error st) then st1\<lparr>error := None\<rparr> else st1)
      else st)"

text \<open>Modelled from the spec: the TextInput component of React Native, which is not under
  src/. NoteScreen renders it with maxLength = MAX_CONTENT_LENGTH and
  onChangeText = handleContentChange; by the spec "attempts to set content beyond that
  length are truncated at the input boundary, not rejected after the fact", so of a text
  entered it reports the first maxLength characters to the handler.
\<close>

definition TextInput_maxLength :: "nat \<Rightarrow> string \<Rightarrow> string" where
  "TextInput_maxLength n text = take n text"

text \<open>A text entered into the content input: the TextInput limits it and calls the handler.\<close>

definition onChangeText :: "string \<Rightarrow> NoteScreen \<Rightarrow> NoteScreen" where
  "onChangeText text st = handleContentChange (TextInput_maxLength MAX_CONTENT_LENGTH text) st"

subsection \<open>HomeScreen\<close>

definition loadNotes_try :: "World \<Rightarrow> exn + Note list" where
  "loadNotes_try w =
     (case getItem (store w) of
        Inl e \<Rightarrow> Inl e
      | Inr None \<Rightarrow> Inr []
      | Inr (Some t) \<Rightarrow> (if t = EmptyText then Inr [] else JSON_parse t))"

text \<open>loadNotes: the value it gives to the \<open>notes\<close> state; the catch block gives the empty array.\<close>

definition loadNotes :: "World \<Rightarrow> Note list" where
  "loadNotes w = (case loadNotes_try w of Inl e \<Rightarrow> [] | Inr ns \<Rightarrow> ns)"

text \<open>
  deleteNote once the alert's Delete button is pressed. It filters the \<open>notes\<close> state of
  the screen, writes the result and, when the write resolved, stores it in the state.
\<close>

definition deleteNote :: "string \<Rightarrow> Note list \<Rightarrow> World \<Rightarrow> outcome option \<times> Note list \<times> World" where
  "deleteNote nid notes w =
     (let updatedNotes = filter (\<lambda>note. id' note \<noteq> nid) notes
      in case setItem (JSON_stringify updatedNotes) (store w) of
           Inl e \<Rightarrow> (Some (Alerted ''Failed to delete note''), notes, w)
         | Inr s' \<Rightarrow> (None, updatedNotes, w\<lparr>store := s'\<rparr>))"

text \<open>
  Array.prototype.sort is stable: it gives the one ordering of the array in which no
  element follows one that the comparator puts after it, elements that compare equal
  keeping their order. For a comparator that is consistent, as a difference of time
  values is, insertion from the right computes that ordering.
\<close>

fun sort_insert :: "('a \<Rightarrow> 'a \<Rightarrow> int) \<Rightarrow> 'a \<Rightarrow> 'a list \<Rightarrow> 'a list" where
  "sort_insert cmp a [] = [a]"
| "sort_insert cmp a (b # bs) = (if cmp a b \<le> 0 then a # b # bs else b # sort_insert cmp a bs)"

definition Array_sort :: "('a \<Rightarrow> 'a \<Rightarrow> int) \<Rightarrow> 'a list \<Rightarrow> 'a list" where
  "Array_sort cmp xs = foldr (sort_insert cmp) xs []"

definition getLatestNotesForCategory :: "Note list \<Rightarrow> string \<Rightarrow> Note list" where
  "getLatestNotesForCategory notes c =
     take 3 (Array_sort (\<lambda>a b. createdAt b - createdAt a)
               (filter (\<lambda>note. categoryId note = c) notes))"

subsection \<open>SummaryScreen\<close>

record SummaryScreen =
  notesS :: "Note list"
  categoryCounts :: "string \<rightharpoonup> nat"

definition countsOf :: "Note list \<Rightarrow> (string \<rightharpoonup> nat)" where
  "countsOf loadedNotes =
     foldl (\<lambda>acc category.
              acc(cid category \<mapsto> length (filter (\<lambda>note. categoryId note = cid category) loadedNotes)))
       Map.empty CATEGORIES"

definition loadNotes_Summary :: "World \<Rightarrow> SummaryScreen" where
  "loadNotes_Summary w =
     (case getItem (store w) of
        Inl e \<Rightarrow> \<lparr>notesS = [], categoryCounts = Map.empty\<rparr>
      | Inr None \<Rightarrow> \<lparr>notesS = [], categoryCounts = Map.empty\<rparr>
      | Inr (Some t) \<Rightarrow>
          (if t = EmptyText then \<lparr>notesS = [], categoryCounts = Map.empty\<rparr>
           else (case JSON_parse t of
                   Inl e \<Rightarrow> \<lparr>notesS = [], categoryCounts = Map.empty\<rparr>
                 | Inr loadedNotes \<Rightarrow>
                     \<lparr>notesS = loadedNotes, categoryCounts = countsOf loadedNotes\<rparr>)))"

text \<open>The number shown on a category's card: \<open>categoryCounts[category.id] || 0\<close>.\<close>

definition shownCount :: "SummaryScreen \<Rightarrow> string \<Rightarrow> nat" where
  "shownCount s c = (case categoryCounts s c of None \<Rightarrow> 0 | Some k \<Rightarrow> k)"

subsection \<open>SettingsScreen\<close>

text \<open>clearAllNotes once the alert's Delete button is pressed.\<close>

definition clearAllNotes :: "World \<Rightarrow> outcome option \<times> World" where
  "clearAllNotes w =
     (case removeItem (store w) of
        Inl e \<Rightarrow> (Some (Alerted ''Failed to delete notes''), w)
      | Inr s' \<Rightarrow> (None, w\<lparr>store := s'\<rparr>))"

subsection \<open>Running the application\<close>

text \<open>
  What the user does on an open NoteScreen: the text input reports a changed text, the
  dropdown is opened or closed, an entry of the open dropdown (one per element of
  CATEGORIES) is pressed.
\<close>

datatype action = ChangeText string | ToggleDropdown | PressItem nat

fun act :: "NoteScreen \<Rightarrow> action \<Rightarrow> NoteScreen" where
  "act st (ChangeText text) = handleContentChange text st"
| "act st ToggleDropdown = st\<lparr>dropdownOpen := \<not> dropdownOpen st\<rparr>"
| "act st (PressItem i) =
     (if dropdownOpen st \<and> i < length CATEGORIES then pressDropdownItem (CATEGORIES ! i) st else st)"

text \<open>NoteScreen opened with route parameters, after its mount effect and the user's actions.\<close>

definition NoteScreen_used :: "string option \<Rightarrow> string option \<Rightarrow> World \<Rightarrow> action list \<Rightarrow> NoteScreen" where
  "NoteScreen_used nid cat w acts = foldl act (useEffect (NoteScreen_init nid cat) w) acts"

text \<open>
  The application as a whole: the world and the \<open>notes\<close> state of HomeScreen. An event
  is one change of the storage's availability or one thing the user does: pressing Save
  on a NoteScreen in a given state (\<open>Save\<close>), or on one opened with given route
  parameters and then used (\<open>Compose\<close>); confirming the deletion of a note on
  HomeScreen; HomeScreen coming into focus; confirming "Delete All Notes".
\<close>

record App =
  world :: World
  homeNotes :: "Note list"

datatype event =
    Save NoteScreen
  | Compose "string option" "string option" "action list"
  | Delete string
  | Focus
  | ClearAll
  | Availability bool bool

definition App_init :: "(nat \<Rightarrow> int) \<Rightarrow> App" where
  "App_init clk =
     \<lparr>world = \<lparr>store = \<lparr>item = None, readable = True, writable = True\<rparr>, clock = clk, reads = 0\<rparr>,
      homeNotes = []\<rparr>"

fun step :: "App \<Rightarrow> event \<Rightarrow> App" where
  "step a (Save st) = a\<lparr>world := snd (snd (saveNote st (world a)))\<rparr>"
| "step a (Compose nid cat acts) =
     a\<lparr>world := snd (snd (saveNote (NoteScreen_used nid cat (world a) acts) (world a)))\<rparr>"
| "step a (Delete nid) =
     (case deleteNote nid (homeNotes a) (world a) of
        (_, ns, w) \<Rightarrow> \<lparr>world = w, homeNotes = ns\<rparr>)"
| "step a Focus = a\<lparr>homeNotes := loadNotes (world a)\<rparr>"
| "step a ClearAll = a\<lparr>world := snd (clearAllNotes (world a))\<rparr>"
| "step a (Availability r wr) =
     a\<lparr>world := (world a)\<lparr>store := (store (world a))\<lparr>readable := r, writable := wr\<rparr>\<rparr>\<rparr>"

definition run :: "(nat \<Rightarrow> int) \<Rightarrow> event list \<Rightarrow> App" where
  "run clk evs = foldl step (App_init clk) evs"

subsection \<open>Concrete inputs\<close>

text \<open>A clock that stands still, and one that advances by a millisecond at every read.\<close>

definition clock_still :: "nat \<Rightarrow> int" where
  "clock_still k = 1000"

definition clock_ticking :: "nat \<Rightarrow> int" where
  "clock_ticking k = 1000 + int k"

definition world_with :: "stored option \<Rightarrow> (nat \<Rightarrow> int) \<Rightarrow> World" where
  "world_with t clk = \<lparr>store = \<lparr>item = t, readable = True, writable = True\<rparr>, clock = clk, reads = 0\<rparr>"

definition world_offline :: World where
  "world_offline = \<lparr>store = \<lparr>item = None, readable = False, writable = False\<rparr>, clock = clock_still, reads = 0\<rparr>"

text \<open>A new note in "life" typed as "Buy milk", and the same with a space after it.\<close>

definition draft_milk :: NoteScreen where
  "draft_milk = handleContentChange ''Buy milk'' (pressDropdownItem (CATEGORIES ! 1) (NoteScreen_init None None))"

definition draft_padded :: NoteScreen where
  "draft_padded = handleContentChange ''Buy milk '' (pressDropdownItem (CATEGORIES ! 1) (NoteScreen_init None None))"

definition note_milk :: Note where
  "note_milk = \<lparr>id' = ''1000'', title = [], content = ''Buy milk'', categoryId = ''life'',
                 createdAt = 1000, updatedAt = 1000\<rparr>"

definition note_run :: Note where
  "note_run = \<lparr>id' = ''2000'', title = [], content = ''Go running'', categoryId = ''health'',
                createdAt = 2000, updatedAt = 2000\<rparr>"

definition clock_later :: "nat \<Rightarrow> int" where
  "clock_later k = 3000 + int k"

text \<open>A storage holding two notes; editing the second of them; an edit whose noteId matches no note.\<close>

definition world_two :: World where
  "world_two = world_with (Some (Stringified [note_milk, note_run])) clock_later"

definition draft_edit_run :: NoteScreen where
  "draft_edit_run = handleContentChange ''Run 5 km'' (useEffect (NoteScreen_init (Some ''2000'') None) world_two)"

definition draft_unknown_id :: NoteScreen where
  "draft_unknown_id = handleContentChange ''Call mum'' (useEffect (NoteScreen_init (Some ''42'') None) world_two)"

text \<open>Four notes in "life", two of them created in the same millisecond, and one in "health".\<close>

definition life_notes :: "Note list" where
  "life_notes =
     [\<lparr>id' = ''10'', title = [], content = ''a'', categoryId = ''life'', createdAt = 10, updatedAt = 10\<rparr>,
      \<lparr>id' = ''30'', title = [], content = ''b'', categoryId = ''life'', createdAt = 30, updatedAt = 30\<rparr>,
      \<lparr>id' = ''31'', title = [], content = ''c'', categoryId = ''health'', createdAt = 31, updatedAt = 31\<rparr>,
      \<lparr>id' = ''20'', title = [], content = ''d'', categoryId = ''life'', createdAt = 30, updatedAt = 40\<rparr>,
      \<lparr>id' = ''40'', title = [], content = ''e'', categoryId = ''life'', createdAt = 20, updatedAt = 20\<rparr>]"

text \<open>A new note on a screen opened with the route parameter categoryId "archive".\<close>

definition draft_archive :: NoteScreen where
  "draft_archive = handleContentChange ''Old plans'' (useEffect (NoteScreen_init None (Some ''archive'')) (world_with None clock_still))"

text \<open>
  A day of use through the application's own screens: a new note typed with a space
  after it, a new note in "health", a reload, and an edit of the first note that changes
  nothing but is saved.
\<close>

definition events_own :: "event list" where
  "events_own =
     [Compose None None [ToggleDropdown, PressItem 1, ChangeText ''Buy milk ''],
      Compose None None [ChangeText ''Stretch'', ToggleDropdown, PressItem 2],
      Focus,
      Compose (Some ''1000'') None []]"

text \<open>
  A clock that advances by a millisecond every fourth read, and one that stands at an
  earlier time than the notes of \<open>world_two\<close> were written.
\<close>

definition clock_slow :: "nat \<Rightarrow> int" where
  "clock_slow k = 1000 + int (k div 4)"

definition clock_early :: "nat \<Rightarrow> int" where
  "clock_early k = 500"

text \<open>
  Two new notes saved through the application's screens, and then the screen opened on a
  note id, with the content changed to "Stretch daily".
\<close>

definition events_two :: "event list" where
  "events_two =
     [Compose None None [ToggleDropdown, PressItem 1, ChangeText ''Buy milk ''],
      Compose None None [ChangeText ''Stretch'', ToggleDropdown, PressItem 2]]"

definition draft_edit_second :: "(nat \<Rightarrow> int) \<Rightarrow> string \<Rightarrow> NoteScreen" where
  "draft_edit_second clk nid =
     NoteScreen_used (Some nid) None (world (run clk events_two)) [ChangeText ''Stretch daily'']"

subsection \<open>Properties of the notes of a state\<close>

text \<open>
  A property holds of every note of an application state when it holds of every note in
  the stored array and of every note in the \<open>notes\<close> state of HomeScreen.
\<close>

definition everyNote :: "(Note \<Rightarrow> bool) \<Rightarrow> App \<Rightarrow> bool" where
  "everyNote P a =
     ((case item (store (world a)) of
         Some (Stringified ns) \<Rightarrow> list_all P ns
       | _ \<Rightarrow> True) \<and>
      list_all P (homeNotes a))"

text \<open>A note's content is trimmed when trimming leaves it as it is and it is not empty.\<close>

definition trimmedContent :: "Note \<Rightarrow> bool" where
  "trimmedContent n = (trim (content n) = content n \<and> 1 \<le> length (content n))"

text \<open>A note's category is valid when it is the id of one of the CATEGORIES.\<close>

definition validCategory :: "Note \<Rightarrow> bool" where
  "validCategory n = (categoryId n \<in> set (map cid CATEGORIES))"

text \<open>
  An event brings no category from outside when the screen whose Save is pressed has a
  selected category among the CATEGORIES, or was opened with a route categoryId that is
  absent or among them. The screens of the application open NoteScreen without a
  categoryId.
\<close>

fun categoryFromApp :: "event \<Rightarrow> bool" where
  "categoryFromApp (Save st) = (selectedCategory st \<in> set (map cid CATEGORIES))"
| "categoryFromApp (Compose nid cat acts) =
     (if truthy cat then valueOf cat \<in> set (map cid CATEGORIES) else True)"
| "categoryFromApp ev = True"

text \<open>No note of a state is later than the clock when no updatedAt exceeds the next reading.\<close>

definition notLater :: "App \<Rightarrow> bool" where
  "notLater a = everyNote (\<lambda>n. updatedAt n \<le> clock (world a) (reads (world a))) a"

section \<open>Properties\<close>

subsection \<open>Auxiliary facts\<close>

lemma trim_no_leading: "dropWhile isWhiteSpace (trim s) = trim s"
proof (cases "trim s = []")
  case True
  then show ?thesis by simp
next
  case False
  define t where "t = dropWhile isWhiteSpace s"
  have u: "trim s = rev (dropWhile isWhiteSpace (rev t))"
    by (simp add: trim_def t_def)
  have "trim s @ rev (takeWhile isWhiteSpace (rev t)) =
      rev (takeWhile isWhiteSpace (rev t) @ dropWhile isWhiteSpace (rev t))"
    by (simp only: u rev_append)
  also have "\<dots> = t"
    by (simp only: takeWhile_dropWhile_id rev_rev_ident)
  finally have split: "t = trim s @ rev (takeWhile isWhiteSpace (rev t))"
    by (rule sym)
  with False have "hd (trim s) = hd t" and "t \<noteq> []"
    by (metis hd_append2, metis append_is_Nil_conv)
  moreover have "\<not> isWhiteSpace (hd t)"
    using \<open>t \<noteq> []\<close> unfolding t_def by (rule hd_dropWhile)
  ultimately show ?thesis
    using False by (simp add: dropWhile_eq_self_iff)
qed

lemma trim_no_trailing: "dropWhile isWhiteSpace (rev (trim s)) = rev (trim s)"
  by (simp add: trim_def)

lemma trim_idem: "trim (trim s) = trim s"
proof -
  have "trim (trim s) = rev (dropWhile isWhiteSpace (rev (dropWhile isWhiteSpace (trim s))))"
    by (simp add: trim_def)
  also have "\<dots> = rev (dropWhile isWhiteSpace (rev (trim s)))"
    by (simp only: trim_no_leading)
  also have "\<dots> = trim s"
    by (simp only: trim_no_trailing rev_rev_ident)
  finally show ?thesis .
qed

lemma validateContent_ok:
  "trim (contentS st) \<noteq> [] \<Longrightarrow> validateContent st = (True, st\<lparr>error := None\<rparr>)"
  by (cases "trim (contentS st)") (simp_all add: validateContent_def MIN_CONTENT_LENGTH_def)

lemma validateContent_fail:
  "trim (contentS st) = [] \<Longrightarrow> fst (validateContent st) = False"
  by (simp add: validateContent_def)

lemma newNote_create:
  "\<not> truthy (noteId st) \<Longrightarrow>
   newNote st notes w =
     (\<lparr>id' = Number_toString (clock w (reads w)), title = titleS st,
       content = trim (contentS st), categoryId = selectedCategory st,
       createdAt = clock w (Suc (reads w)), updatedAt = clock w (Suc (Suc (reads w)))\<rparr>,
      w\<lparr>reads := Suc (Suc (Suc (reads w)))\<rparr>)"
  by (simp add: newNote_def Date_now_def new_Date_toISOString_def)

lemma newNote_content: "content (fst (newNote st notes w)) = trim (contentS st)"
  by (simp add: newNote_def Date_now_def new_Date_toISOString_def split: prod.splits option.splits)

lemma newNote_store: "store (snd (newNote st notes w)) = store w"
  by (simp add: newNote_def Date_now_def new_Date_toISOString_def split: prod.splits option.splits)

lemma saveNote_create:
  assumes "\<not> truthy (noteId st)" and "trim (contentS st) \<noteq> []"
    and "readable (store w)" and "writable (store w)"
    and "parseStored (item (store w)) = Inr prior"
  shows "saveNote st w =
     (NavigatedHome, st\<lparr>error := None\<rparr>,
      w\<lparr>reads := Suc (Suc (Suc (reads w))),
        store := (store w)\<lparr>item := Some (Stringified (prior @
          [\<lparr>id' = Number_toString (clock w (reads w)), title = titleS st,
            content = trim (contentS st), categoryId = selectedCategory st,
            createdAt = clock w (Suc (reads w)),
            updatedAt = clock w (Suc (Suc (reads w)))\<rparr>]))\<rparr>\<rparr>)"
  using assms
  by (simp add: saveNote_def validateContent_ok saveNote_try_def getItem_def setItem_def
      newNote_create JSON_stringify_def truthy_def)

lemma loadNotes_parse:
  "readable (store w) \<Longrightarrow> parseStored (item (store w)) = Inr ns \<Longrightarrow> loadNotes w = ns"
  by (simp add: loadNotes_def loadNotes_try_def getItem_def parseStored_def split: option.splits)

lemma parseStored_total:
  "t \<noteq> Some Unparsable \<Longrightarrow> \<exists>ns. parseStored t = Inr ns"
  by (cases t; simp add: parseStored_def) (metis JSON_parse.simps(1) stored.exhaust)

lemma map_replace_unique:
  assumes "\<forall>j<length xs. f (xs ! j) = f (xs ! k) \<longrightarrow> j = k" and "k < length xs"
  shows "map (\<lambda>x. if f x = f (xs ! k) then y else x) xs = xs[k := y]"
proof (rule nth_equalityI)
  show "length (map (\<lambda>x. if f x = f (xs ! k) then y else x) xs) = length (xs[k := y])"
    by simp
next
  fix j
  assume "j < length (map (\<lambda>x. if f x = f (xs ! k) then y else x) xs)"
  then have j: "j < length xs" by simp
  have "f (xs ! j) = f (xs ! k) \<longleftrightarrow> j = k"
    using assms(1) j by auto
  then show "map (\<lambda>x. if f x = f (xs ! k) then y else x) xs ! j = xs[k := y] ! j"
    using j assms(2) by (simp add: nth_list_update)
qed

lemma find_unique:
  assumes "\<forall>j<length xs. f (xs ! j) = f (xs ! k) \<longrightarrow> j = k" and "k < length xs"
  shows "find (\<lambda>x. f x = f (xs ! k)) xs = Some (xs ! k)"
proof -
  have "f (xs ! j) \<noteq> f (xs ! k)" if "j < k" for j
  proof
    assume "f (xs ! j) = f (xs ! k)"
    moreover have "j < length xs"
      using that assms(2) by simp
    ultimately have "j = k"
      using assms(1) by blast
    with that show False by simp
  qed
  then show ?thesis
    using assms(2) by (auto simp add: find_Some_iff)
qed

lemma saveNote_edit_found:
  assumes "truthy (noteId st)" and "trim (contentS st) \<noteq> []"
    and "readable (store w)" and "writable (store w)"
    and "parseStored (item (store w)) = Inr prior"
    and "find (\<lambda>n. Some (id' n) = noteId st) prior = Some m"
  shows "saveNote st w =
     (NavigatedHome, st\<lparr>error := None\<rparr>,
      w\<lparr>reads := Suc (reads w),
        store := (store w)\<lparr>item := Some (Stringified
          (map (\<lambda>note. if Some (id' note) = noteId st
                       then \<lparr>id' = valueOf (noteId st), title = titleS st,
                             content = trim (contentS st), categoryId = selectedCategory st,
                             createdAt = createdAt m, updatedAt = clock w (reads w)\<rparr>
                       else note) prior))\<rparr>\<rparr>)"
  using assms
  by (simp add: saveNote_def validateContent_ok saveNote_try_def getItem_def setItem_def
      newNote_def new_Date_toISOString_def JSON_stringify_def)

lemma saveNote_edit_missing:
  assumes "truthy (noteId st)" and "trim (contentS st) \<noteq> []"
    and "readable (store w)" and "writable (store w)"
    and "parseStored (item (store w)) = Inr prior"
    and "find (\<lambda>n. Some (id' n) = noteId st) prior = None"
  shows "saveNote st w =
     (NavigatedHome, st\<lparr>error := None\<rparr>,
      w\<lparr>reads := Suc (Suc (reads w)),
        store := (store w)\<lparr>item := Some (Stringified prior)\<rparr>\<rparr>)"
proof -
  have "\<And>note. note \<in> set prior \<Longrightarrow> Some (id' note) \<noteq> noteId st"
    using assms(6) by (simp add: find_None_iff)
  then have same: "\<And>n. map (\<lambda>note. if Some (id' note) = noteId st then n else note) prior = prior"
    by (simp add: map_idI)
  show ?thesis
    using assms(1-5)
    by (simp add: saveNote_def validateContent_ok saveNote_try_def getItem_def setItem_def
      newNote_def new_Date_toISOString_def JSON_stringify_def assms(6) same)
qed

lemma sort_insert_insort_key:
  "sort_insert (\<lambda>a b. createdAt b - createdAt a) x xs = insort_key (\<lambda>n. - createdAt n) x xs"
  by (induction xs) simp_all

lemma Array_sort_sort_key:
  "Array_sort (\<lambda>a b. createdAt b - createdAt a) xs = sort_key (\<lambda>n. - createdAt n) xs"
  by (induction xs) (simp_all add: Array_sort_def sort_key_def sort_insert_insort_key)

lemma sorted_wrt_take: "sorted_wrt R xs \<Longrightarrow> sorted_wrt R (take k xs)"
  by (metis append_take_drop_id sorted_wrt_append)

lemma filter_take_prefix: "prefix (filter P (take k xs)) (filter P xs)"
  by (metis append_take_drop_id filter_append prefixI)

lemma JSON_parse_Inr: "JSON_parse t = Inr ns \<Longrightarrow> t = Stringified ns"
  by (cases t) simp_all

lemma parseStored_Inr:
  "parseStored t = Inr ns \<Longrightarrow> t = Some (Stringified ns) \<or> ns = []"
  by (cases t) (auto simp add: parseStored_def split: if_splits dest: JSON_parse_Inr)

lemma find_in_set: "find P xs = Some x \<Longrightarrow> x \<in> set xs"
  by (auto simp add: find_Some_iff)

lemma loadNotes_cases:
  "loadNotes w = [] \<or> item (store w) = Some (Stringified (loadNotes w))"
  by (auto simp add: loadNotes_def loadNotes_try_def getItem_def
      split: option.splits sum.splits if_splits dest: JSON_parse_Inr)

lemma countsOf_eq:
  "countsOf ns =
     [''work-study'' \<mapsto> length (filter (\<lambda>n. categoryId n = ''work-study'') ns),
      ''life'' \<mapsto> length (filter (\<lambda>n. categoryId n = ''life'') ns),
      ''health'' \<mapsto> length (filter (\<lambda>n. categoryId n = ''health'') ns)]"
  by (simp add: countsOf_def CATEGORIES_def)

lemma category_ids: "map cid CATEGORIES = [''work-study'', ''life'', ''health'']"
  by (simp add: CATEGORIES_def)

lemma three_way_count:
  assumes "a \<noteq> b" and "a \<noteq> c" and "b \<noteq> c" and "\<forall>x \<in> set xs. f x \<in> {a, b, c}"
  shows "length (filter (\<lambda>x. f x = a) xs) + length (filter (\<lambda>x. f x = b) xs)
       + length (filter (\<lambda>x. f x = c) xs) = length xs"
  using assms(4)
proof (induction xs)
  case Nil
  then show ?case by simp
next
  case (Cons x xs)
  then have "f x = a \<or> f x = b \<or> f x = c" by simp
  with Cons assms(1-3) show ?case by auto
qed

lemma loadNotes_Summary_parsed:
  "readable (store w) \<Longrightarrow> item (store w) = Some (Stringified ns) \<Longrightarrow>
   loadNotes_Summary w = \<lparr>notesS = ns, categoryCounts = countsOf ns\<rparr>"
  by (simp add: loadNotes_Summary_def getItem_def)

lemma loadNotes_Summary_cases:
  "(loadNotes_Summary w = \<lparr>notesS = [], categoryCounts = Map.empty\<rparr> \<and> loadNotes w = []) \<or>
   loadNotes_Summary w = \<lparr>notesS = loadNotes w, categoryCounts = countsOf (loadNotes w)\<rparr>"
  by (auto simp add: loadNotes_Summary_def loadNotes_def loadNotes_try_def getItem_def
      split: option.splits sum.splits if_splits)

lemma newNote_categoryId: "categoryId (fst (newNote st notes w)) = selectedCategory st"
  by (simp add: newNote_def Date_now_def new_Date_toISOString_def split: prod.splits option.splits)

lemma loadNote_category:
  "selectedCategory (loadNote nid st w) = selectedCategory st \<or>
   (\<exists>n \<in> set (loadNotes w). selectedCategory (loadNote nid st w) = categoryId n)"
  by (auto simp add: loadNote_def loadNotes_def loadNotes_try_def getItem_def
      split: option.splits sum.splits if_splits dest: JSON_parse_Inr find_in_set)

lemma newNote_trimmed:
  "trim (contentS st) \<noteq> [] \<Longrightarrow> trimmedContent (fst (newNote st notes w))"
  by (simp add: trimmedContent_def newNote_content trim_idem Suc_le_eq)

lemma saveNote_item:
  "item (store (snd (snd (saveNote st w)))) = item (store w) \<or>
   (trim (contentS st) \<noteq> [] \<and>
    (\<exists>prior. parseStored (item (store w)) = Inr prior \<and>
      item (store (snd (snd (saveNote st w)))) =
        Some (Stringified
          (if truthy (noteId st)
           then map (\<lambda>note. if Some (id' note) = noteId st
                             then fst (newNote (st\<lparr>error := None\<rparr>) prior w) else note) prior
           else prior @ [fst (newNote (st\<lparr>error := None\<rparr>) prior w)]))))"
proof (cases "trim (contentS st) = []")
  case True
  then show ?thesis
    by (simp add: saveNote_def validateContent_def)
next
  case False
  let ?st = "st\<lparr>error := None\<rparr>"
  have v: "validateContent st = (True, ?st)"
    using False by (rule validateContent_ok)
  show ?thesis
  proof (cases "getItem (store w)")
    case (Inl e)
    then show ?thesis by (simp add: saveNote_def v saveNote_try_def)
  next
    case (Inr storedNotes)
    then have sn: "storedNotes = item (store w)"
      by (simp add: getItem_def split: if_splits)
    show ?thesis
    proof (cases "parseStored storedNotes")
      case (Inl e)
      then show ?thesis by (simp add: saveNote_def v saveNote_try_def Inr)
    next
      case prior: (Inr ns0)
      obtain n w1 where nn: "newNote ?st ns0 w = (n, w1)"
        by (cases "newNote ?st ns0 w")
      have w1: "store w1 = store w"
        using newNote_store [of ?st ns0 w] nn by simp
      show ?thesis
      proof (cases "writable (store w)")
        case False
        then show ?thesis
          by (simp add: saveNote_def v saveNote_try_def Inr prior nn setItem_def w1)
      next
        case True
        have "item (store (snd (snd (saveNote st w)))) =
           Some (Stringified (if truthy (noteId st)
                           then map (\<lambda>note. if Some (id' note) = noteId st
                                             then fst (newNote ?st ns0 w) else note) ns0
                           else ns0 @ [fst (newNote ?st ns0 w)]))"
          using True
          by (simp add: saveNote_def v saveNote_try_def Inr prior nn setItem_def w1 JSON_stringify_def)
        with False prior sn show ?thesis by blast
      qed
    qed
  qed
qed

lemma save_everyNote:
  assumes a: "everyNote P a"
    and new: "\<And>prior. trim (contentS st) \<noteq> [] \<Longrightarrow> P (fst (newNote (st\<lparr>error := None\<rparr>) prior (world a)))"
  shows "everyNote P (a\<lparr>world := snd (snd (saveNote st (world a)))\<rparr>)"
proof -
  let ?w = "snd (snd (saveNote st (world a)))"
  from saveNote_item [of st "world a"]
  have "case item (store ?w) of Some (Stringified ns) \<Rightarrow> list_all P ns | _ \<Rightarrow> True"
  proof
    assume "item (store ?w) = item (store (world a))"
    with a show ?thesis by (simp add: everyNote_def)
  next
    assume "trim (contentS st) \<noteq> [] \<and>
      (\<exists>prior. parseStored (item (store (world a))) = Inr prior \<and>
        item (store ?w) =
          Some (Stringified
            (if truthy (noteId st)
             then map (\<lambda>note. if Some (id' note) = noteId st
                               then fst (newNote (st\<lparr>error := None\<rparr>) prior (world a)) else note) prior
             else prior @ [fst (newNote (st\<lparr>error := None\<rparr>) prior (world a))])))"
    then obtain prior where ne: "trim (contentS st) \<noteq> []"
      and p: "parseStored (item (store (world a))) = Inr prior"
      and i: "item (store ?w) =
          Some (Stringified
            (if truthy (noteId st)
             then map (\<lambda>note. if Some (id' note) = noteId st
                               then fst (newNote (st\<lparr>error := None\<rparr>) prior (world a)) else note) prior
             else prior @ [fst (newNote (st\<lparr>error := None\<rparr>) prior (world a))]))"
      by blast
    have "list_all P prior"
      using parseStored_Inr [OF p] a by (auto simp add: everyNote_def)
    with new [OF ne, of prior] show ?thesis
      by (auto simp add: i list_all_iff)
  qed
  with a show ?thesis
    by (simp add: everyNote_def)
qed

lemma delete_everyNote: "everyNote P a \<Longrightarrow> everyNote P (step a (Delete nid))"
  by (auto simp add: everyNote_def deleteNote_def setItem_def JSON_stringify_def list_all_iff Let_def)

lemma focus_everyNote: "everyNote P a \<Longrightarrow> everyNote P (step a Focus)"
  using loadNotes_cases [of "world a"] by (auto simp add: everyNote_def)

lemma clear_everyNote: "everyNote P a \<Longrightarrow> everyNote P (step a ClearAll)"
  by (auto simp add: everyNote_def clearAllNotes_def removeItem_def)

lemma availability_everyNote: "everyNote P a \<Longrightarrow> everyNote P (step a (Availability r wr))"
  by (simp add: everyNote_def)

lemma everyNote_loadNotes: "everyNote P a \<Longrightarrow> n \<in> set (loadNotes (world a)) \<Longrightarrow> P n"
  using loadNotes_cases [of "world a"] by (auto simp add: everyNote_def list_all_iff)

lemma step_trimmed: "everyNote trimmedContent a \<Longrightarrow> everyNote trimmedContent (step a ev)"
proof (cases ev)
  case (Save st)
  assume "everyNote trimmedContent a"
  then show ?thesis
    unfolding Save step.simps by (rule save_everyNote) (simp add: newNote_trimmed)
next
  case (Compose nid cat acts)
  assume "everyNote trimmedContent a"
  then show ?thesis
    unfolding Compose step.simps by (rule save_everyNote) (simp add: newNote_trimmed)
next
  case (Delete nid)
  assume "everyNote trimmedContent a"
  then show ?thesis unfolding Delete by (rule delete_everyNote)
next
  case Focus
  assume "everyNote trimmedContent a"
  then show ?thesis unfolding Focus by (rule focus_everyNote)
next
  case ClearAll
  assume "everyNote trimmedContent a"
  then show ?thesis unfolding ClearAll by (rule clear_everyNote)
next
  case (Availability r wr)
  assume "everyNote trimmedContent a"
  then show ?thesis unfolding Availability by (rule availability_everyNote)
qed

lemma run_trimmed: "everyNote trimmedContent (run clk evs)"
proof (induction evs rule: rev_induct)
  case Nil
  show ?case by (simp add: run_def App_init_def everyNote_def)
next
  case (snoc ev evs)
  then have "everyNote trimmedContent (step (run clk evs) ev)"
    by (rule step_trimmed)
  then show ?case by (simp add: run_def)
qed

lemma act_category:
  "selectedCategory st \<in> set (map cid CATEGORIES) \<Longrightarrow>
   selectedCategory (act st x) \<in> set (map cid CATEGORIES)"
  by (cases x) (simp_all add: handleContentChange_def pressDropdownItem_def Let_def)

lemma foldl_act_category:
  "selectedCategory st \<in> set (map cid CATEGORIES) \<Longrightarrow>
   selectedCategory (foldl act st acts) \<in> set (map cid CATEGORIES)"
proof (induction acts arbitrary: st)
  case Nil
  then show ?case by simp
next
  case (Cons x acts)
  from Cons.prems have "selectedCategory (act st x) \<in> set (map cid CATEGORIES)"
    by (rule act_category)
  then have "selectedCategory (foldl act (act st x) acts) \<in> set (map cid CATEGORIES)"
    by (rule Cons.IH)
  then show ?case by simp
qed

lemma useEffect_category:
  assumes "if truthy cat then valueOf cat \<in> set (map cid CATEGORIES) else True"
    and "\<forall>n \<in> set (loadNotes w). categoryId n \<in> set (map cid CATEGORIES)"
  shows "selectedCategory (useEffect (NoteScreen_init nid cat) w) \<in> set (map cid CATEGORIES)"
proof -
  define st1 where "st1 = (if truthy cat then (NoteScreen_init nid cat)\<lparr>selectedCategory := valueOf cat\<rparr>
                else NoteScreen_init nid cat)"
  have "selectedCategory (NoteScreen_init nid cat) \<in> set (map cid CATEGORIES)"
    by (simp add: NoteScreen_init_def CATEGORIES_def)
  then have s1: "selectedCategory st1 \<in> set (map cid CATEGORIES)"
    using assms(1) by (auto simp add: st1_def split: if_splits)
  have l: "selectedCategory (loadNote (valueOf nid) st1 w) \<in> set (map cid CATEGORIES)"
    using loadNote_category [of "valueOf nid" st1 w] s1 assms(2) by metis
  have ue: "useEffect (NoteScreen_init nid cat) w =
      (if truthy nid then loadNote (valueOf nid) st1 w else st1)"
    unfolding st1_def by (simp add: useEffect_def Let_def) (simp add: NoteScreen_init_def)
  show ?thesis
    unfolding ue using s1 l by simp
qed

lemma newNote_validCategory:
  "selectedCategory st \<in> set (map cid CATEGORIES) \<Longrightarrow>
   validCategory (fst (newNote (st\<lparr>error := None\<rparr>) prior w))"
  by (simp add: validCategory_def newNote_categoryId)

lemma step_validCategory:
  assumes "everyNote validCategory a" and "categoryFromApp ev"
  shows "everyNote validCategory (step a ev)"
proof (cases ev)
  case (Save st)
  with assms(2) have "selectedCategory st \<in> set (map cid CATEGORIES)"
    by simp
  with assms(1) show ?thesis
    unfolding Save step.simps by (intro save_everyNote newNote_validCategory)
next
  case (Compose nid cat acts)
  have "\<forall>n \<in> set (loadNotes (world a)). categoryId n \<in> set (map cid CATEGORIES)"
    using everyNote_loadNotes [OF assms(1)] by (simp add: validCategory_def)
  moreover have "if truthy cat then valueOf cat \<in> set (map cid CATEGORIES) else True"
    using assms(2) by (simp add: Compose)
  ultimately have "selectedCategory (useEffect (NoteScreen_init nid cat) (world a)) \<in> set (map cid CATEGORIES)"
    by (intro useEffect_category)
  then have "selectedCategory (NoteScreen_used nid cat (world a) acts) \<in> set (map cid CATEGORIES)"
    unfolding NoteScreen_used_def by (rule foldl_act_category)
  with assms(1) show ?thesis
    unfolding Compose step.simps by (intro save_everyNote newNote_validCategory)
next
  case (Delete nid)
  from assms(1) show ?thesis unfolding Delete by (rule delete_everyNote)
next
  case Focus
  from assms(1) show ?thesis unfolding Focus by (rule focus_everyNote)
next
  case ClearAll
  from assms(1) show ?thesis unfolding ClearAll by (rule clear_everyNote)
next
  case (Availability r wr)
  from assms(1) show ?thesis unfolding Availability by (rule availability_everyNote)
qed

lemma run_validCategory:
  "list_all categoryFromApp evs \<Longrightarrow> everyNote validCategory (run clk evs)"
proof (induction evs rule: rev_induct)
  case Nil
  show ?case by (simp add: run_def App_init_def everyNote_def)
next
  case (snoc ev evs)
  then have "everyNote validCategory (run clk evs)" and "categoryFromApp ev"
    by simp_all
  then have "everyNote validCategory (step (run clk evs) ev)"
    by (rule step_validCategory)
  then show ?case by (simp add: run_def)
qed

lemma saveNote_edit_at:
  assumes "readable (store w)" and "writable (store w)"
    and "item (store w) = Some (Stringified ns)"
    and "k < length ns"
    and "\<forall>j<length ns. id' (ns ! j) = id' (ns ! k) \<longrightarrow> j = k"
    and "id' (ns ! k) \<noteq> []"
    and "noteId st = Some (id' (ns ! k))"
    and "trim (contentS st) \<noteq> []"
  shows "fst (saveNote st w) = NavigatedHome \<and>
    loadNotes (snd (snd (saveNote st w))) =
      ns[k := \<lparr>id' = id' (ns ! k), title = titleS st, content = trim (contentS st),
               categoryId = selectedCategory st, createdAt = createdAt (ns ! k),
               updatedAt = clock w (reads w)\<rparr>]"
proof -
  let ?n = "\<lparr>id' = id' (ns ! k), title = titleS st, content = trim (contentS st),
               categoryId = selectedCategory st, createdAt = createdAt (ns ! k),
               updatedAt = clock w (reads w)\<rparr>"
  have tr: "truthy (noteId st)"
    using assms(6,7) by (simp add: truthy_def)
  have prior: "parseStored (item (store w)) = Inr ns"
    using assms(3) by (simp add: parseStored_def)
  have eq: "\<And>n. (Some (id' n) = noteId st) = (id' n = id' (ns ! k))"
    using assms(7) by auto
  have fnd: "find (\<lambda>n. Some (id' n) = noteId st) ns = Some (ns ! k)"
    unfolding eq using assms(5,4) by (rule find_unique)
  note sv = saveNote_edit_found [OF tr assms(8) assms(1) assms(2) prior fnd]
  have upd: "map (\<lambda>note. if Some (id' note) = noteId st then ?n else note) ns = ns[k := ?n]"
    unfolding eq using assms(5,4) by (rule map_replace_unique)
  have val: "valueOf (noteId st) = id' (ns ! k)"
    using assms(7) by (simp add: valueOf_def)
  have stored: "item (store (snd (snd (saveNote st w)))) = Some (Stringified (ns[k := ?n]))"
    unfolding sv val upd by simp
  have rd: "readable (store (snd (snd (saveNote st w))))"
    unfolding sv using assms(1) by simp
  have after: "loadNotes (snd (snd (saveNote st w))) = ns[k := ?n]"
    by (rule loadNotes_parse [OF rd]) (simp add: stored parseStored_def)
  have 1: "fst (saveNote st w) = NavigatedHome"
    by (simp add: sv)
  show ?thesis
    by (intro conjI 1 after)
qed

lemma newNote_clock: "clock (snd (newNote st ns w)) = clock w"
  by (simp add: newNote_def Date_now_def new_Date_toISOString_def split: prod.splits option.splits)

lemma newNote_reads: "reads w \<le> reads (snd (newNote st ns w))"
  by (simp add: newNote_def Date_now_def new_Date_toISOString_def split: prod.splits option.splits)

lemma newNote_updatedAt:
  "mono (clock w) \<Longrightarrow> updatedAt (fst (newNote st ns w)) \<le> clock w (reads (snd (newNote st ns w)))"
  by (auto simp add: newNote_def Date_now_def new_Date_toISOString_def monoD
      split: prod.splits option.splits)

lemma digits_nonempty: "digits n \<noteq> []"
  by (subst digits.simps) simp

lemma newNote_id_nonempty: "id' (fst (newNote st ns w)) \<noteq> []"
  by (auto simp add: newNote_def Date_now_def new_Date_toISOString_def truthy_def valueOf_def
      Number_toString_def digits_nonempty split: prod.splits option.splits)

lemma saveNote_world:
  "clock (snd (snd (saveNote st w))) = clock w \<and>
   ((item (store (snd (snd (saveNote st w)))) = item (store w) \<and>
     reads w \<le> reads (snd (snd (saveNote st w)))) \<or>
    (trim (contentS st) \<noteq> [] \<and>
     (\<exists>prior. parseStored (item (store w)) = Inr prior \<and>
        reads (snd (snd (saveNote st w))) = reads (snd (newNote (st\<lparr>error := None\<rparr>) prior w)) \<and>
        item (store (snd (snd (saveNote st w)))) =
          Some (Stringified
            (if truthy (noteId st)
             then map (\<lambda>note. if Some (id' note) = noteId st
                               then fst (newNote (st\<lparr>error := None\<rparr>) prior w) else note) prior
             else prior @ [fst (newNote (st\<lparr>error := None\<rparr>) prior w)])))))"
proof (cases "trim (contentS st) = []")
  case True
  then show ?thesis
    by (simp add: saveNote_def validateContent_def)
next
  case False
  let ?st = "st\<lparr>error := None\<rparr>"
  have v: "validateContent st = (True, ?st)"
    using False by (rule validateContent_ok)
  show ?thesis
  proof (cases "getItem (store w)")
    case (Inl e)
    then show ?thesis by (simp add: saveNote_def v saveNote_try_def)
  next
    case (Inr storedNotes)
    then have sn: "storedNotes = item (store w)"
      by (simp add: getItem_def split: if_splits)
    show ?thesis
    proof (cases "parseStored storedNotes")
      case (Inl e)
      then show ?thesis by (simp add: saveNote_def v saveNote_try_def Inr)
    next
      case prior: (Inr ns0)
      obtain n w1 where nn: "newNote ?st ns0 w = (n, w1)"
        by (cases "newNote ?st ns0 w")
      have w1: "store w1 = store w" "clock w1 = clock w" "reads w \<le> reads w1"
        using newNote_store [of ?st ns0 w] newNote_clock [of ?st ns0 w] newNote_reads [of w ?st ns0] nn
        by simp_all
      show ?thesis
      proof (cases "writable (store w)")
        case False
        then show ?thesis
          using w1 by (simp add: saveNote_def v saveNote_try_def Inr prior nn setItem_def)
      next
        case True
        have "clock (snd (snd (saveNote st w))) = clock w \<and>
           reads (snd (snd (saveNote st w))) = reads (snd (newNote ?st ns0 w)) \<and>
           item (store (snd (snd (saveNote st w)))) =
           Some (Stringified (if truthy (noteId st)
                           then map (\<lambda>note. if Some (id' note) = noteId st
                                             then fst (newNote ?st ns0 w) else note) ns0
                           else ns0 @ [fst (newNote ?st ns0 w)]))"
          using True w1
          by (simp add: saveNote_def v saveNote_try_def Inr prior nn setItem_def JSON_stringify_def)
        with False prior sn show ?thesis by blast
      qed
    qed
  qed
qed

lemma everyNote_weaken: "everyNote P a \<Longrightarrow> (\<And>n. P n \<Longrightarrow> Q n) \<Longrightarrow> everyNote Q a"
  by (auto simp add: everyNote_def list_all_iff split: option.splits stored.splits)

lemma everyNote_le:
  "everyNote (\<lambda>n. updatedAt n \<le> b) a \<Longrightarrow> b \<le> c \<Longrightarrow> everyNote (\<lambda>n. updatedAt n \<le> (c::int)) a"
  by (erule everyNote_weaken) simp

lemma save_notLater:
  assumes m: "mono (clock (world a))"
    and a: "everyNote (\<lambda>n. updatedAt n \<le> clock (world a) (reads (world a))) a"
  shows "everyNote (\<lambda>n. updatedAt n \<le> clock (world a) (reads (snd (snd (saveNote st (world a))))))
           (a\<lparr>world := snd (snd (saveNote st (world a)))\<rparr>)"
proof -
  let ?w = "world a"
  let ?w' = "snd (snd (saveNote st ?w))"
  let ?P = "\<lambda>n. updatedAt n \<le> clock ?w (reads ?w')"
  from saveNote_world [of st ?w]
  have "(item (store ?w') = item (store ?w) \<and> reads ?w \<le> reads ?w') \<or>
    (trim (contentS st) \<noteq> [] \<and>
     (\<exists>prior. parseStored (item (store ?w)) = Inr prior \<and>
        reads ?w' = reads (snd (newNote (st\<lparr>error := None\<rparr>) prior ?w)) \<and>
        item (store ?w') =
          Some (Stringified
            (if truthy (noteId st)
             then map (\<lambda>note. if Some (id' note) = noteId st
                               then fst (newNote (st\<lparr>error := None\<rparr>) prior ?w) else note) prior
             else prior @ [fst (newNote (st\<lparr>error := None\<rparr>) prior ?w)]))))"
    by (rule conjunct2)
  then show ?thesis
  proof
    assume h: "item (store ?w') = item (store ?w) \<and> reads ?w \<le> reads ?w'"
    then have "clock ?w (reads ?w) \<le> clock ?w (reads ?w')"
      using m by (simp add: monoD)
    with a have "everyNote ?P a"
      by (rule everyNote_le)
    with h show ?thesis
      by (simp add: everyNote_def)
  next
    assume "trim (contentS st) \<noteq> [] \<and>
     (\<exists>prior. parseStored (item (store ?w)) = Inr prior \<and>
        reads ?w' = reads (snd (newNote (st\<lparr>error := None\<rparr>) prior ?w)) \<and>
        item (store ?w') =
          Some (Stringified
            (if truthy (noteId st)
             then map (\<lambda>note. if Some (id' note) = noteId st
                               then fst (newNote (st\<lparr>error := None\<rparr>) prior ?w) else note) prior
             else prior @ [fst (newNote (st\<lparr>error := None\<rparr>) prior ?w)])))"
    then obtain prior where p: "parseStored (item (store ?w)) = Inr prior"
      and r: "reads ?w' = reads (snd (newNote (st\<lparr>error := None\<rparr>) prior ?w))"
      and i: "item (store ?w') =
          Some (Stringified
            (if truthy (noteId st)
             then map (\<lambda>note. if Some (id' note) = noteId st
                               then fst (newNote (st\<lparr>error := None\<rparr>) prior ?w) else note) prior
             else prior @ [fst (newNote (st\<lparr>error := None\<rparr>) prior ?w)]))"
      by blast
    have "reads ?w \<le> reads ?w'"
      unfolding r by (rule newNote_reads)
    then have "clock ?w (reads ?w) \<le> clock ?w (reads ?w')"
      using m by (simp add: monoD)
    with a have old: "everyNote ?P a"
      by (rule everyNote_le)
    have new: "?P (fst (newNote (st\<lparr>error := None\<rparr>) prior ?w))"
      unfolding r using m by (rule newNote_updatedAt)
    have "list_all ?P prior"
      using parseStored_Inr [OF p] old by (auto simp add: everyNote_def)
    with new have "list_all ?P
            (if truthy (noteId st)
             then map (\<lambda>note. if Some (id' note) = noteId st
                               then fst (newNote (st\<lparr>error := None\<rparr>) prior ?w) else note) prior
             else prior @ [fst (newNote (st\<lparr>error := None\<rparr>) prior ?w)])"
      by (auto simp add: list_all_iff)
    with old show ?thesis
      by (simp add: everyNote_def i)
  qed
qed

lemma step_clock: "clock (world (step a ev)) = clock (world a)"
  by (cases ev)
     (simp_all add: saveNote_world deleteNote_def clearAllNotes_def setItem_def removeItem_def Let_def)

lemma step_notLater:
  assumes "mono (clock (world a))" and "notLater a"
  shows "notLater (step a ev)"
proof (cases ev)
  case (Save st)
  show ?thesis
    using save_notLater [OF assms(1) assms(2) [unfolded notLater_def], of st]
    by (simp add: notLater_def Save saveNote_world)
next
  case (Compose nid cat acts)
  show ?thesis
    using save_notLater [OF assms(1) assms(2) [unfolded notLater_def], of "NoteScreen_used nid cat (world a) acts"]
    by (simp add: notLater_def Compose saveNote_world)
next
  case (Delete nid)
  have "reads (world (step a (Delete nid))) = reads (world a)"
    "clock (world (step a (Delete nid))) = clock (world a)"
    by (simp_all add: deleteNote_def setItem_def Let_def)
  then show ?thesis
    using delete_everyNote [OF assms(2) [unfolded notLater_def], of nid]
    by (simp only: notLater_def Delete)
next
  case Focus
  show ?thesis
    using focus_everyNote [OF assms(2) [unfolded notLater_def]]
    by (simp add: notLater_def Focus)
next
  case ClearAll
  have "reads (world (step a ClearAll)) = reads (world a)"
    "clock (world (step a ClearAll)) = clock (world a)"
    by (simp_all add: clearAllNotes_def removeItem_def)
  then show ?thesis
    using clear_everyNote [OF assms(2) [unfolded notLater_def]]
    by (simp only: notLater_def ClearAll)
next
  case (Availability r wr)
  show ?thesis
    using availability_everyNote [OF assms(2) [unfolded notLater_def], of r wr]
    by (simp add: notLater_def Availability)
qed

lemma run_clock: "clock (world (run clk evs)) = clk"
  by (induction evs rule: rev_induct) (simp_all add: run_def App_init_def step_clock)

lemma run_notLater: "mono clk \<Longrightarrow> notLater (run clk evs)"
proof (induction evs rule: rev_induct)
  case Nil
  show ?case by (simp add: run_def App_init_def notLater_def everyNote_def)
next
  case (snoc ev evs)
  then have "notLater (run clk evs)" by simp
  moreover have "mono (clock (world (run clk evs)))"
    using snoc.prems by (simp add: run_clock)
  ultimately have "notLater (step (run clk evs) ev)"
    by (intro step_notLater)
  then show ?case by (simp add: run_def)
qed

lemma step_id_nonempty: "everyNote (\<lambda>n. id' n \<noteq> []) a \<Longrightarrow> everyNote (\<lambda>n. id' n \<noteq> []) (step a ev)"
proof (cases ev)
  case (Save st)
  assume "everyNote (\<lambda>n. id' n \<noteq> []) a"
  then show ?thesis
    unfolding Save step.simps by (rule save_everyNote) (rule newNote_id_nonempty)
next
  case (Compose nid cat acts)
  assume "everyNote (\<lambda>n. id' n \<noteq> []) a"
  then show ?thesis
    unfolding Compose step.simps by (rule save_everyNote) (rule newNote_id_nonempty)
next
  case (Delete nid)
  assume "everyNote (\<lambda>n. id' n \<noteq> []) a"
  then show ?thesis unfolding Delete by (rule delete_everyNote)
next
  case Focus
  assume "everyNote (\<lambda>n. id' n \<noteq> []) a"
  then show ?thesis unfolding Focus by (rule focus_everyNote)
next
  case ClearAll
  assume "everyNote (\<lambda>n. id' n \<noteq> []) a"
  then show ?thesis unfolding ClearAll by (rule clear_everyNote)
next
  case (Availability r wr)
  assume "everyNote (\<lambda>n. id' n \<noteq> []) a"
  then show ?thesis unfolding Availability by (rule availability_everyNote)
qed

lemma run_id_nonempty: "everyNote (\<lambda>n. id' n \<noteq> []) (run clk evs)"
proof (induction evs rule: rev_induct)
  case Nil
  show ?case by (simp add: run_def App_init_def everyNote_def)
next
  case (snoc ev evs)
  then have "everyNote (\<lambda>n. id' n \<noteq> []) (step (run clk evs) ev)"
    by (rule step_id_nonempty)
  then show ?case by (simp add: run_def)
qed

subsection \<open>Reading the collection\<close>

text \<open>
  Claim C5. loadNotes never raises: its result is an array whatever the storage holds.
  When the read is rejected, when the key is absent, and when the stored text is empty or
  does not parse, the result is the empty array (every exception of the try block ends
  there); when the stored text is the serialisation of an array of notes, the result is
  that array, in its order. The loadNotes of SummaryScreen gives the same notes.
\<close>

theorem loadNotes_never_raises:
  "(\<not> readable (store w) \<longrightarrow> loadNotes w = []) \<and>
   (item (store w) = None \<longrightarrow> loadNotes w = []) \<and>
   (item (store w) = Some EmptyText \<longrightarrow> loadNotes w = []) \<and>
   (item (store w) = Some Unparsable \<longrightarrow> loadNotes w = []) \<and>
   (readable (store w) \<and> item (store w) = Some (Stringified ns) \<longrightarrow> loadNotes w = ns) \<and>
   (\<forall>e. loadNotes_try w = Inl e \<longrightarrow> loadNotes w = []) \<and>
   notesS (loadNotes_Summary w) = loadNotes w"
  by (auto simp add: loadNotes_def loadNotes_try_def loadNotes_Summary_def getItem_def
      split: option.splits sum.splits stored.splits)

theorem loadNotes_never_raises_witness:
  "\<not> readable (store world_offline) \<and> loadNotes world_offline = [] \<and>
   loadNotes (world_with None clock_still) = [] \<and>
   loadNotes (world_with (Some EmptyText) clock_still) = [] \<and>
   loadNotes (world_with (Some Unparsable) clock_still) = [] \<and>
   loadNotes_try (world_with (Some Unparsable) clock_still) = Inl SyntaxError \<and>
   loadNotes (world_with (Some (Stringified [note_milk, note_run])) clock_still) = [note_milk, note_run]"
  using loadNotes_never_raises [of world_offline]
    loadNotes_never_raises [of "world_with None clock_still"]
    loadNotes_never_raises [of "world_with (Some EmptyText) clock_still"]
    loadNotes_never_raises [of "world_with (Some Unparsable) clock_still"]
    loadNotes_never_raises [of "world_with (Some (Stringified [note_milk, note_run])) clock_still" "[note_milk, note_run]"]
  by (simp add: world_offline_def world_with_def loadNotes_try_def getItem_def)

subsection \<open>Saving a new note\<close>

text \<open>
  Claim C1, amended. For a draft without a noteId whose trimmed content has between 1 and
  200 characters, on a storage that resolves and whose item is absent, empty or parses:
  saveNote navigates home, and loadNotes afterwards returns what it returned before
  followed by exactly one new note. The note's content is the trimmed content of the
  draft, its categoryId the selected category, its id the decimal rendering of the first
  clock reading, and createdAt and updatedAt the second and the third reading; they are
  equal whenever the clock does not advance between these two reads.
\<close>

theorem saveNote_new_then_loadNotes:
  assumes "\<not> truthy (noteId st)"
    and "1 \<le> length (trim (contentS st))" and "length (trim (contentS st)) \<le> 200"
    and "readable (store w)" and "writable (store w)"
    and "item (store w) \<noteq> Some Unparsable"
  shows "fst (saveNote st w) = NavigatedHome \<and>
    loadNotes (snd (snd (saveNote st w))) =
      loadNotes w @
        [\<lparr>id' = Number_toString (clock w (reads w)), title = titleS st,
          content = trim (contentS st), categoryId = selectedCategory st,
          createdAt = clock w (Suc (reads w)),
          updatedAt = clock w (Suc (Suc (reads w)))\<rparr>] \<and>
    (clock w (Suc (reads w)) = clock w (Suc (Suc (reads w))) \<longrightarrow>
      createdAt (last (loadNotes (snd (snd (saveNote st w))))) =
      updatedAt (last (loadNotes (snd (snd (saveNote st w))))))"
proof -
  obtain prior where prior: "parseStored (item (store w)) = Inr prior"
    using assms(6) parseStored_total by blast
  have ne: "trim (contentS st) \<noteq> []"
    using assms(2) by auto
  have before: "loadNotes w = prior"
    using assms(4) prior by (rule loadNotes_parse)
  note sv = saveNote_create [OF assms(1) ne assms(4) assms(5) prior]
  have after: "loadNotes (snd (snd (saveNote st w))) =
      prior @ [\<lparr>id' = Number_toString (clock w (reads w)), title = titleS st,
          content = trim (contentS st), categoryId = selectedCategory st,
          createdAt = clock w (Suc (reads w)),
          updatedAt = clock w (Suc (Suc (reads w)))\<rparr>]"
    unfolding sv using assms(4)
    by (intro loadNotes_parse) (simp_all add: parseStored_def)
  have 1: "fst (saveNote st w) = NavigatedHome"
    by (simp add: sv)
  have 2: "loadNotes (snd (snd (saveNote st w))) =
      loadNotes w @ [\<lparr>id' = Number_toString (clock w (reads w)), title = titleS st,
          content = trim (contentS st), categoryId = selectedCategory st,
          createdAt = clock w (Suc (reads w)),
          updatedAt = clock w (Suc (Suc (reads w)))\<rparr>]"
    by (simp only: after before)
  have 3: "clock w (Suc (reads w)) = clock w (Suc (Suc (reads w))) \<longrightarrow>
      createdAt (last (loadNotes (snd (snd (saveNote st w))))) =
      updatedAt (last (loadNotes (snd (snd (saveNote st w)))))"
    by (simp add: after)
  show ?thesis
    by (intro conjI 1 2 3)
qed

theorem saveNote_new_then_loadNotes_witness:
  "\<not> truthy (noteId draft_padded) \<and> 1 \<le> length (trim (contentS draft_padded)) \<and>
   length (trim (contentS draft_padded)) \<le> 200 \<and>
   loadNotes (snd (snd (saveNote draft_padded (world_with (Some (Stringified [note_run])) clock_still)))) =
     [note_run, note_milk]"
  using saveNote_new_then_loadNotes [of draft_padded "world_with (Some (Stringified [note_run])) clock_still"]
  apply (simp add: draft_padded_def handleContentChange_def pressDropdownItem_def NoteScreen_init_def
      CATEGORIES_def MAX_CONTENT_LENGTH_def truthy_def world_with_def clock_still_def
      trim_def isWhiteSpace_def note_milk_def loadNotes_def loadNotes_try_def getItem_def)
  apply code_simp
  done

text \<open>
  The claim as first stated fails for "Buy milk " typed with a space after it on a clock
  that advances at every read: the stored content is "Buy milk", not the draft's
  content, and createdAt is 1001 while updatedAt is 1002.
\<close>

theorem saveNote_content_counterexample:
  "\<not> truthy (noteId draft_padded) \<and>
   1 \<le> length (trim (contentS draft_padded)) \<and> length (trim (contentS draft_padded)) \<le> 200 \<and>
   loadNotes (world_with None clock_ticking) = [] \<and>
   loadNotes (snd (snd (saveNote draft_padded (world_with None clock_ticking)))) =
     [\<lparr>id' = ''1000'', title = [], content = ''Buy milk'', categoryId = ''life'',
       createdAt = 1001, updatedAt = 1002\<rparr>] \<and>
   content (last (loadNotes (snd (snd (saveNote draft_padded (world_with None clock_ticking))))))
     \<noteq> contentS draft_padded \<and>
   createdAt (last (loadNotes (snd (snd (saveNote draft_padded (world_with None clock_ticking))))))
     \<noteq> updatedAt (last (loadNotes (snd (snd (saveNote draft_padded (world_with None clock_ticking))))))"
  by code_simp

subsection \<open>Editing a note\<close>

text \<open>
  Claim C2, amended. Take a state the application has reached from an absent item, under
  any clock, whose storage resolves and holds a collection, and a note of it whose id no
  other note of the collection has. Saving with that note's id and a draft whose trimmed
  content has between 1 and 200 characters navigates home and leaves the collection as
  it was except at the note's position: the note there keeps its id and its createdAt,
  takes the draft's title, trimmed content and category, and has the current clock
  reading as updatedAt. The size is unchanged. When the clock never runs backwards, the
  new updatedAt is later than or equal to the one before.
\<close>

theorem saveNote_edit_in_place:
  assumes "w = world (run clk evs)"
    and "readable (store w)" and "writable (store w)"
    and "item (store w) = Some (Stringified ns)"
    and "k < length ns"
    and "\<forall>j<length ns. id' (ns ! j) = id' (ns ! k) \<longrightarrow> j = k"
    and "noteId st = Some (id' (ns ! k))"
    and "1 \<le> length (trim (contentS st))" and "length (trim (contentS st)) \<le> 200"
  shows "fst (saveNote st w) = NavigatedHome \<and>
    loadNotes (snd (snd (saveNote st w))) =
      ns[k := \<lparr>id' = id' (ns ! k), title = titleS st, content = trim (contentS st),
               categoryId = selectedCategory st, createdAt = createdAt (ns ! k),
               updatedAt = clk (reads w)\<rparr>] \<and>
    length (loadNotes (snd (snd (saveNote st w)))) = length ns \<and>
    createdAt (loadNotes (snd (snd (saveNote st w))) ! k) = createdAt (ns ! k) \<and>
    updatedAt (loadNotes (snd (snd (saveNote st w))) ! k) = clk (reads w) \<and>
    (mono clk \<longrightarrow> updatedAt (ns ! k) \<le> updatedAt (loadNotes (snd (snd (saveNote st w))) ! k))"
proof -
  let ?n = "\<lparr>id' = id' (ns ! k), title = titleS st, content = trim (contentS st),
               categoryId = selectedCategory st, createdAt = createdAt (ns ! k),
               updatedAt = clk (reads w)\<rparr>"
  have ck: "clock w = clk"
    unfolding assms(1) by (rule run_clock)
  have mem: "ns ! k \<in> set ns"
    using assms(5) by simp
  have "everyNote (\<lambda>n. id' n \<noteq> []) (run clk evs)"
    by (rule run_id_nonempty)
  then have "list_all (\<lambda>n. id' n \<noteq> []) ns"
    using assms(4) unfolding assms(1) by (simp add: everyNote_def)
  with mem have idn: "id' (ns ! k) \<noteq> []"
    by (simp add: list_all_iff)
  have ne: "trim (contentS st) \<noteq> []"
    using assms(8) by auto
  note E = saveNote_edit_at [OF assms(2) assms(3) assms(4) assms(5) assms(6) idn assms(7) ne]
  have 1: "fst (saveNote st w) = NavigatedHome"
    by (rule E [THEN conjunct1])
  have after: "loadNotes (snd (snd (saveNote st w))) = ns[k := ?n]"
    using E [THEN conjunct2] by (simp only: ck)
  have 3: "length (loadNotes (snd (snd (saveNote st w)))) = length ns"
    by (simp add: after)
  have 4: "createdAt (loadNotes (snd (snd (saveNote st w))) ! k) = createdAt (ns ! k)"
    using assms(5) by (simp add: after)
  have 5: "updatedAt (loadNotes (snd (snd (saveNote st w))) ! k) = clk (reads w)"
    using assms(5) by (simp add: after)
  have 6: "mono clk \<longrightarrow> updatedAt (ns ! k) \<le> updatedAt (loadNotes (snd (snd (saveNote st w))) ! k)"
  proof
    assume "mono clk"
    then have "notLater (run clk evs)"
      by (rule run_notLater)
    then have "list_all (\<lambda>n. updatedAt n \<le> clk (reads w)) ns"
      using assms(4) ck unfolding assms(1) by (simp add: notLater_def everyNote_def)
    with mem have "updatedAt (ns ! k) \<le> clk (reads w)"
      by (simp add: list_all_iff)
    then show "updatedAt (ns ! k) \<le> updatedAt (loadNotes (snd (snd (saveNote st w))) ! k)"
      by (simp only: 5)
  qed
  show ?thesis
    by (intro conjI 1 after 3 4 5 6)
qed

theorem saveNote_edit_in_place_witness:
  "mono clock_ticking \<and>
   loadNotes (world (run clock_ticking events_two)) =
     [\<lparr>id' = ''1000'', title = [], content = ''Buy milk'', categoryId = ''life'',
       createdAt = 1001, updatedAt = 1002\<rparr>,
      \<lparr>id' = ''1003'', title = [], content = ''Stretch'', categoryId = ''health'',
       createdAt = 1004, updatedAt = 1005\<rparr>] \<and>
   noteId (draft_edit_second clock_ticking ''1003'') = Some ''1003'' \<and>
   loadNotes (snd (snd (saveNote (draft_edit_second clock_ticking ''1003'')
                          (world (run clock_ticking events_two))))) =
     [\<lparr>id' = ''1000'', title = [], content = ''Buy milk'', categoryId = ''life'',
       createdAt = 1001, updatedAt = 1002\<rparr>,
      \<lparr>id' = ''1003'', title = [], content = ''Stretch daily'', categoryId = ''health'',
       createdAt = 1004, updatedAt = 1006\<rparr>] \<and>
   (1005::int) \<le> 1006"
proof -
  let ?w = "world (run clock_ticking events_two)"
  let ?st = "draft_edit_second clock_ticking ''1003''"
  let ?a = "\<lparr>id' = ''1000'', title = [], content = ''Buy milk'', categoryId = ''life'',
       createdAt = 1001, updatedAt = 1002\<rparr>"
  let ?b = "\<lparr>id' = ''1003'', title = [], content = ''Stretch'', categoryId = ''health'',
       createdAt = 1004, updatedAt = 1005\<rparr>"
  let ?b' = "\<lparr>id' = ''1003'', title = [], content = ''Stretch daily'', categoryId = ''health'',
       createdAt = 1004, updatedAt = 1006\<rparr>"
  have m: "mono clock_ticking"
    by (simp add: mono_def clock_ticking_def)
  have h1: "?w = world (run clock_ticking events_two)"
    by (rule refl)
  have h2: "readable (store ?w)" and h3: "writable (store ?w)"
    by code_simp+
  have h4: "item (store ?w) = Some (Stringified [?a, ?b])"
    by code_simp
  have h5: "1 < length [?a, ?b]"
    by simp
  have h6: "\<forall>j<length [?a, ?b]. id' ([?a, ?b] ! j) = id' ([?a, ?b] ! 1) \<longrightarrow> j = 1"
    by (simp add: less_Suc_eq)
  have h7: "noteId ?st = Some (id' ([?a, ?b] ! 1))"
    by code_simp
  have h8: "1 \<le> length (trim (contentS ?st))" and h9: "length (trim (contentS ?st)) \<le> 200"
    by code_simp+
  note T = saveNote_edit_in_place [OF h1 h2 h3 h4 h5 h6 h7 h8 h9]
  have l: "loadNotes ?w = [?a, ?b]"
    by code_simp
  have n: "noteId ?st = Some ''1003''"
    by code_simp
  have v: "[?a, ?b][1 := \<lparr>id' = id' ([?a, ?b] ! 1), title = titleS ?st,
              content = trim (contentS ?st), categoryId = selectedCategory ?st,
              createdAt = createdAt ([?a, ?b] ! 1),
              updatedAt = clock_ticking (reads ?w)\<rparr>] = [?a, ?b']"
    by code_simp
  have c: "loadNotes (snd (snd (saveNote ?st ?w))) = [?a, ?b']"
    using T [THEN conjunct2, THEN conjunct1] unfolding v .
  have "updatedAt ([?a, ?b] ! 1) \<le> updatedAt (loadNotes (snd (snd (saveNote ?st ?w))) ! 1)"
    using T [THEN conjunct2, THEN conjunct2, THEN conjunct2, THEN conjunct2, THEN conjunct2] m
    by (rule mp)
  then have le: "(1005::int) \<le> 1006"
    unfolding c by simp
  show ?thesis
    by (intro conjI m l n c le)
qed

text \<open>
  The claim as first stated, for every persisted collection and every note in it, fails
  in two ways. On a clock that reads the same millisecond for the ids of two new notes,
  both get the id "1000"; saving with that id replaces both, so the second note takes
  the createdAt of the first (1000 instead of 1001) and the first is overwritten too.
  And on a clock standing at 500, editing a note last updated at 2000 sets its updatedAt
  to 500, which is earlier.
\<close>

theorem saveNote_edit_counterexample:
  "loadNotes (world (run clock_slow events_two)) =
     [\<lparr>id' = ''1000'', title = [], content = ''Buy milk'', categoryId = ''life'',
       createdAt = 1000, updatedAt = 1000\<rparr>,
      \<lparr>id' = ''1000'', title = [], content = ''Stretch'', categoryId = ''health'',
       createdAt = 1001, updatedAt = 1001\<rparr>] \<and>
   noteId (draft_edit_second clock_slow ''1000'') = Some ''1000'' \<and>
   loadNotes (snd (snd (saveNote (draft_edit_second clock_slow ''1000'')
                          (world (run clock_slow events_two))))) =
     [\<lparr>id' = ''1000'', title = [], content = ''Stretch daily'', categoryId = ''life'',
       createdAt = 1000, updatedAt = 1001\<rparr>,
      \<lparr>id' = ''1000'', title = [], content = ''Stretch daily'', categoryId = ''life'',
       createdAt = 1000, updatedAt = 1001\<rparr>] \<and>
   createdAt (loadNotes (snd (snd (saveNote (draft_edit_second clock_slow ''1000'')
                                     (world (run clock_slow events_two))))) ! 1)
     \<noteq> createdAt (loadNotes (world (run clock_slow events_two)) ! 1) \<and>
   noteId draft_edit_run = Some ''2000'' \<and>
   updatedAt (loadNotes (world_with (Some (Stringified [note_milk, note_run])) clock_early) ! 1) = 2000 \<and>
   updatedAt (loadNotes (snd (snd (saveNote draft_edit_run
       (world_with (Some (Stringified [note_milk, note_run])) clock_early)))) ! 1) = 500"
  by code_simp

text \<open>
  Claim C3. The claim says that a save with a noteId matching no note appends a new note
  under a fresh id. saveNote builds the note (under the supplied id, createdAt falling
  back to the clock), but with a noteId it only maps over the existing notes, so nothing
  is replaced and nothing appended: with noteId "42" on a collection of two other notes,
  it navigates home as after a successful save and the collection is the two notes it was.
\<close>

theorem saveNote_unknown_id_drops_note:
  "noteId draft_unknown_id = Some ''42'' \<and> contentS draft_unknown_id = ''Call mum'' \<and>
   loadNotes world_two = [note_milk, note_run] \<and>
   fst (saveNote draft_unknown_id world_two) = NavigatedHome \<and>
   loadNotes (snd (snd (saveNote draft_unknown_id world_two))) = [note_milk, note_run]"
  by code_simp

subsection \<open>Identifiers\<close>

text \<open>
  Claim C4. The claim says that ids are pairwise distinct in every reachable collection.
  The id of a new note is the clock reading in milliseconds, so two new-note saves that
  read the same millisecond produce two notes with the same id.
\<close>

theorem saveNote_same_millisecond_same_id:
  "map id' (loadNotes (world (run clock_still [Save draft_milk, Save draft_padded]))) = [''1000'', ''1000''] \<and>
   \<not> distinct (map id' (loadNotes (world (run clock_still [Save draft_milk, Save draft_padded]))))"
  by code_simp

subsection \<open>The content input\<close>

text \<open>
  Claim C6. For every text entered into the content input, after the change handler has
  run the content is the text when it has at most 200 characters, and the first 200
  characters of the text otherwise: the TextInput truncates the text to its maxLength
  before it reaches handleContentChange. The handler itself stores a text it is given
  only when the text has at most 200 characters, and otherwise leaves the content as it
  was.
\<close>

theorem onChangeText_truncates:
  "contentS (onChangeText text st) = (if length text \<le> 200 then text else take 200 text) \<and>
   contentS (handleContentChange text st) = (if length text \<le> 200 then text else contentS st)"
  by (simp add: onChangeText_def TextInput_maxLength_def handleContentChange_def
      MAX_CONTENT_LENGTH_def Let_def)

subsection \<open>The latest notes of a category\<close>

text \<open>
  Claim C8, amended. getLatestNotesForCategory takes no limit: it returns at most 3
  notes, namely 3 or all notes of the category if there are fewer. Every returned note
  is a note of the collection with the given categoryId, the returned notes are in
  descending order of createdAt, and notes with equal createdAt come in their order in
  the collection (those returned are the first of them).
\<close>

theorem getLatestNotesForCategory_three:
  "length (getLatestNotesForCategory notes c) = min 3 (length (filter (\<lambda>n. categoryId n = c) notes)) \<and>
   length (getLatestNotesForCategory notes c) \<le> 3 \<and>
   (\<forall>n \<in> set (getLatestNotesForCategory notes c). categoryId n = c \<and> n \<in> set notes) \<and>
   sorted_wrt (\<lambda>a b. createdAt b \<le> createdAt a) (getLatestNotesForCategory notes c) \<and>
   (\<forall>t. prefix (filter (\<lambda>n. createdAt n = t) (getLatestNotesForCategory notes c))
               (filter (\<lambda>n. createdAt n = t) (filter (\<lambda>n. categoryId n = c) notes)))"
proof -
  let ?m = "filter (\<lambda>n. categoryId n = c) notes"
  let ?s = "sort_key (\<lambda>n. - createdAt n) ?m"
  have g: "getLatestNotesForCategory notes c = take 3 ?s"
    by (simp add: getLatestNotesForCategory_def Array_sort_sort_key)
  have 1: "length (take 3 ?s) = min 3 (length ?m)"
    by (simp add: min.commute)
  have 2: "\<forall>n \<in> set (take 3 ?s). categoryId n = c \<and> n \<in> set notes"
  proof
    fix n assume "n \<in> set (take 3 ?s)"
    then have "n \<in> set ?s" by (rule in_set_takeD)
    then show "categoryId n = c \<and> n \<in> set notes" by simp
  qed
  have "sorted (map (\<lambda>n. - createdAt n) ?s)"
    by (rule sorted_sort_key)
  then have "sorted_wrt (\<lambda>a b. createdAt b \<le> createdAt a) ?s"
    by (simp add: sorted_map)
  then have 3: "sorted_wrt (\<lambda>a b. createdAt b \<le> createdAt a) (take 3 ?s)"
    by (rule sorted_wrt_take)
  have 4: "\<forall>t. prefix (filter (\<lambda>n. createdAt n = t) (take 3 ?s)) (filter (\<lambda>n. createdAt n = t) ?m)"
  proof
    fix t
    have "filter (\<lambda>n. - createdAt n = - t) ?s = filter (\<lambda>n. - createdAt n = - t) ?m"
      by (rule sort_key_stable)
    then have "filter (\<lambda>n. createdAt n = t) ?s = filter (\<lambda>n. createdAt n = t) ?m"
      by simp
    then show "prefix (filter (\<lambda>n. createdAt n = t) (take 3 ?s)) (filter (\<lambda>n. createdAt n = t) ?m)"
      using filter_take_prefix [of "\<lambda>n. createdAt n = t" 3 ?s] by simp
  qed
  show ?thesis
    unfolding g by (intro conjI 1 2 3 4) (simp add: min.commute)
qed

theorem getLatestNotesForCategory_three_witness:
  "getLatestNotesForCategory life_notes ''life'' = [life_notes ! 1, life_notes ! 3, life_notes ! 4] \<and>
   life_notes ! 1 \<in> set (getLatestNotesForCategory life_notes ''life'') \<and>
   categoryId (life_notes ! 1) = ''life'' \<and>
   prefix (filter (\<lambda>n. createdAt n = 30) (getLatestNotesForCategory life_notes ''life''))
          (filter (\<lambda>n. createdAt n = 30) (filter (\<lambda>n. categoryId n = ''life'') life_notes))"
proof -
  note T = getLatestNotesForCategory_three [of life_notes "''life''"]
  have c: "getLatestNotesForCategory life_notes ''life'' = [life_notes ! 1, life_notes ! 3, life_notes ! 4]"
    by code_simp
  have m: "life_notes ! 1 \<in> set (getLatestNotesForCategory life_notes ''life'')"
    unfolding c by simp
  have "\<forall>n \<in> set (getLatestNotesForCategory life_notes ''life''). categoryId n = ''life'' \<and> n \<in> set life_notes"
    by (rule T [THEN conjunct2, THEN conjunct2, THEN conjunct1])
  with m have k: "categoryId (life_notes ! 1) = ''life''"
    by blast
  have "\<forall>t. prefix (filter (\<lambda>n. createdAt n = t) (getLatestNotesForCategory life_notes ''life''))
               (filter (\<lambda>n. createdAt n = t) (filter (\<lambda>n. categoryId n = ''life'') life_notes))"
    by (rule T [THEN conjunct2, THEN conjunct2, THEN conjunct2, THEN conjunct2])
  then have p: "prefix (filter (\<lambda>n. createdAt n = 30) (getLatestNotesForCategory life_notes ''life''))
          (filter (\<lambda>n. createdAt n = 30) (filter (\<lambda>n. categoryId n = ''life'') life_notes))"
    by (rule spec)
  show ?thesis
    by (intro conjI c m k p)
qed

text \<open>
  The claim as first stated, for every limit, fails at limit 2 and at limit 4: of four
  notes in "life" the function returns three.
\<close>

theorem getLatestNotesForCategory_limit_counterexample:
  "length (filter (\<lambda>n. categoryId n = ''life'') life_notes) = 4 \<and>
   \<not> length (getLatestNotesForCategory life_notes ''life'') \<le> 2 \<and>
   length (getLatestNotesForCategory life_notes ''life'') \<noteq> min 4 (length (filter (\<lambda>n. categoryId n = ''life'') life_notes))"
  by code_simp

subsection \<open>Counts per category\<close>

text \<open>
  Claim C7. For each of the three fixed categories, the count shown by SummaryScreen is
  the number of loaded notes with that categoryId, whatever the storage holds. When the
  storage holds a collection (the empty array included), categoryCounts has an entry for
  exactly the three category ids, each the number of notes with that categoryId, zero
  when there is none; and when every note's categoryId is one of the three ids, the
  three counts sum to the size of the collection.
\<close>

theorem categoryCounts_per_category:
  "(\<forall>c \<in> set (map cid CATEGORIES).
      shownCount (loadNotes_Summary w) c = length (filter (\<lambda>n. categoryId n = c) (loadNotes w))) \<and>
   (readable (store w) \<and> item (store w) = Some (Stringified ns) \<longrightarrow>
      (\<forall>c \<in> set (map cid CATEGORIES).
          categoryCounts (loadNotes_Summary w) c = Some (length (filter (\<lambda>n. categoryId n = c) ns))) \<and>
      dom (categoryCounts (loadNotes_Summary w)) = set (map cid CATEGORIES) \<and>
      ((\<forall>n \<in> set ns. categoryId n \<in> set (map cid CATEGORIES)) \<longrightarrow>
          sum_list (map (shownCount (loadNotes_Summary w)) (map cid CATEGORIES)) = length ns))"
proof -
  have 0: "\<forall>c \<in> set (map cid CATEGORIES).
      shownCount (loadNotes_Summary w) c = length (filter (\<lambda>n. categoryId n = c) (loadNotes w))"
    using loadNotes_Summary_cases [of w]
    by (auto simp add: shownCount_def countsOf_eq category_ids)
  have r: "readable (store w) \<and> item (store w) = Some (Stringified ns) \<longrightarrow>
      (\<forall>c \<in> set (map cid CATEGORIES).
          categoryCounts (loadNotes_Summary w) c = Some (length (filter (\<lambda>n. categoryId n = c) ns))) \<and>
      dom (categoryCounts (loadNotes_Summary w)) = set (map cid CATEGORIES) \<and>
      ((\<forall>n \<in> set ns. categoryId n \<in> set (map cid CATEGORIES)) \<longrightarrow>
          sum_list (map (shownCount (loadNotes_Summary w)) (map cid CATEGORIES)) = length ns)"
  proof
    assume h: "readable (store w) \<and> item (store w) = Some (Stringified ns)"
    then have s: "loadNotes_Summary w = \<lparr>notesS = ns, categoryCounts = countsOf ns\<rparr>"
      by (simp add: loadNotes_Summary_parsed)
    have 1: "\<forall>c \<in> set (map cid CATEGORIES).
            categoryCounts (loadNotes_Summary w) c = Some (length (filter (\<lambda>n. categoryId n = c) ns))"
      by (simp add: s countsOf_eq category_ids)
    have 2: "dom (categoryCounts (loadNotes_Summary w)) = set (map cid CATEGORIES)"
      by (auto simp add: s countsOf_eq category_ids)
    have 3: "(\<forall>n \<in> set ns. categoryId n \<in> set (map cid CATEGORIES)) \<longrightarrow>
            sum_list (map (shownCount (loadNotes_Summary w)) (map cid CATEGORIES)) = length ns"
    proof
      assume "\<forall>n \<in> set ns. categoryId n \<in> set (map cid CATEGORIES)"
      then have v: "\<forall>n \<in> set ns. categoryId n \<in> {''work-study'', ''life'', ''health''}"
        by (simp add: category_ids)
      have "length (filter (\<lambda>n. categoryId n = ''work-study'') ns)
          + length (filter (\<lambda>n. categoryId n = ''life'') ns)
          + length (filter (\<lambda>n. categoryId n = ''health'') ns) = length ns"
        by (rule three_way_count [OF _ _ _ v]) simp_all
      then show "sum_list (map (shownCount (loadNotes_Summary w)) (map cid CATEGORIES)) = length ns"
        by (simp add: s countsOf_eq category_ids shownCount_def)
    qed
    show "(\<forall>c \<in> set (map cid CATEGORIES).
          categoryCounts (loadNotes_Summary w) c = Some (length (filter (\<lambda>n. categoryId n = c) ns))) \<and>
      dom (categoryCounts (loadNotes_Summary w)) = set (map cid CATEGORIES) \<and>
      ((\<forall>n \<in> set ns. categoryId n \<in> set (map cid CATEGORIES)) \<longrightarrow>
          sum_list (map (shownCount (loadNotes_Summary w)) (map cid CATEGORIES)) = length ns)"
      by (intro conjI 1 2 3)
  qed
  show ?thesis
    by (intro conjI 0 r)
qed

theorem categoryCounts_per_category_witness:
  "readable (store world_two) \<and> item (store world_two) = Some (Stringified [note_milk, note_run]) \<and>
   ''work-study'' \<in> set (map cid CATEGORIES) \<and>
   categoryCounts (loadNotes_Summary world_two) ''work-study'' = Some 0 \<and>
   shownCount (loadNotes_Summary world_two) ''life'' = 1 \<and>
   categoryId note_milk \<in> set (map cid CATEGORIES) \<and>
   categoryId note_run \<in> set (map cid CATEGORIES) \<and>
   sum_list (map (shownCount (loadNotes_Summary world_two)) (map cid CATEGORIES)) = 2 \<and>
   shownCount (loadNotes_Summary (world_with None clock_still)) ''life'' = 0"
proof -
  note T = categoryCounts_per_category [of world_two "[note_milk, note_run]"]
  note U = categoryCounts_per_category [of "world_with None clock_still" "[]"]
  have h: "readable (store world_two) \<and> item (store world_two) = Some (Stringified [note_milk, note_run])"
    by (simp add: world_two_def world_with_def)
  have m: "''work-study'' \<in> set (map cid CATEGORIES)" "''life'' \<in> set (map cid CATEGORIES)"
    by (simp_all add: CATEGORIES_def)
  have v: "categoryId note_milk \<in> set (map cid CATEGORIES)" "categoryId note_run \<in> set (map cid CATEGORIES)"
    by (simp_all add: CATEGORIES_def note_milk_def note_run_def)
  note P = T [THEN conjunct2, THEN mp, OF h]
  have "categoryCounts (loadNotes_Summary world_two) ''work-study'' =
      Some (length (filter (\<lambda>n. categoryId n = ''work-study'') [note_milk, note_run]))"
    using P [THEN conjunct1] m(1) by (rule bspec)
  then have a: "categoryCounts (loadNotes_Summary world_two) ''work-study'' = Some 0"
    by (simp add: note_milk_def note_run_def)
  have l: "loadNotes world_two = [note_milk, note_run]"
    by code_simp
  have "shownCount (loadNotes_Summary world_two) ''life'' =
      length (filter (\<lambda>n. categoryId n = ''life'') (loadNotes world_two))"
    using T [THEN conjunct1] m(2) by (rule bspec)
  then have b: "shownCount (loadNotes_Summary world_two) ''life'' = 1"
    by (simp add: l note_milk_def note_run_def)
  have "\<forall>n \<in> set [note_milk, note_run]. categoryId n \<in> set (map cid CATEGORIES)"
    using v by simp
  with P [THEN conjunct2, THEN conjunct2]
  have "sum_list (map (shownCount (loadNotes_Summary world_two)) (map cid CATEGORIES)) = length [note_milk, note_run]"
    by (rule mp)
  then have c: "sum_list (map (shownCount (loadNotes_Summary world_two)) (map cid CATEGORIES)) = 2"
    by simp
  have l0: "loadNotes (world_with None clock_still) = []"
    by code_simp
  have "shownCount (loadNotes_Summary (world_with None clock_still)) ''life'' =
      length (filter (\<lambda>n. categoryId n = ''life'') (loadNotes (world_with None clock_still)))"
    using U [THEN conjunct1] m(2) by (rule bspec)
  then have d: "shownCount (loadNotes_Summary (world_with None clock_still)) ''life'' = 0"
    by (simp add: l0)
  show ?thesis
    by (intro conjI h [THEN conjunct1] h [THEN conjunct2] m(1) a b v c d)
qed

subsection \<open>The category of a saved note\<close>

text \<open>
  Claim C9, amended. saveNote does not check the category: the note it builds carries
  the screen's selected category as it is. In every state the application reaches by
  events that bring no category from outside (each NoteScreen opened without a route
  categoryId, as the application's screens open it, or with one of the three ids), every
  note of the stored array, of what loadNotes returns and of the \<open>notes\<close> state of
  HomeScreen has one of the three fixed ids as its categoryId.
\<close>

theorem saveNote_writes_selectedCategory:
  "categoryId (fst (newNote st notes w)) = selectedCategory st \<and>
   (list_all categoryFromApp evs \<longrightarrow>
      (\<forall>ns. item (store (world (run clk evs))) = Some (Stringified ns) \<longrightarrow>
         (\<forall>n \<in> set ns. categoryId n \<in> set (map cid CATEGORIES))) \<and>
      (\<forall>n \<in> set (loadNotes (world (run clk evs))). categoryId n \<in> set (map cid CATEGORIES)) \<and>
      (\<forall>n \<in> set (homeNotes (run clk evs)). categoryId n \<in> set (map cid CATEGORIES)))"
proof -
  have 1: "categoryId (fst (newNote st notes w)) = selectedCategory st"
    by (rule newNote_categoryId)
  have 2: "list_all categoryFromApp evs \<longrightarrow>
      (\<forall>ns. item (store (world (run clk evs))) = Some (Stringified ns) \<longrightarrow>
         (\<forall>n \<in> set ns. categoryId n \<in> set (map cid CATEGORIES))) \<and>
      (\<forall>n \<in> set (loadNotes (world (run clk evs))). categoryId n \<in> set (map cid CATEGORIES)) \<and>
      (\<forall>n \<in> set (homeNotes (run clk evs)). categoryId n \<in> set (map cid CATEGORIES))"
  proof
    assume "list_all categoryFromApp evs"
    then have inv: "everyNote validCategory (run clk evs)"
      by (rule run_validCategory)
    have a: "\<forall>ns. item (store (world (run clk evs))) = Some (Stringified ns) \<longrightarrow>
         (\<forall>n \<in> set ns. categoryId n \<in> set (map cid CATEGORIES))"
      using inv by (auto simp add: everyNote_def list_all_iff validCategory_def)
    have b: "\<forall>n \<in> set (loadNotes (world (run clk evs))). categoryId n \<in> set (map cid CATEGORIES)"
      using everyNote_loadNotes [OF inv] by (simp add: validCategory_def)
    have c: "\<forall>n \<in> set (homeNotes (run clk evs)). categoryId n \<in> set (map cid CATEGORIES)"
      using inv by (auto simp add: everyNote_def list_all_iff validCategory_def)
    show "(\<forall>ns. item (store (world (run clk evs))) = Some (Stringified ns) \<longrightarrow>
         (\<forall>n \<in> set ns. categoryId n \<in> set (map cid CATEGORIES))) \<and>
      (\<forall>n \<in> set (loadNotes (world (run clk evs))). categoryId n \<in> set (map cid CATEGORIES)) \<and>
      (\<forall>n \<in> set (homeNotes (run clk evs)). categoryId n \<in> set (map cid CATEGORIES))"
      by (intro conjI a b c)
  qed
  show ?thesis
    by (intro conjI 1 2)
qed

theorem saveNote_writes_selectedCategory_witness:
  "list_all categoryFromApp events_own \<and>
   loadNotes (world (run clock_ticking events_own)) =
     [\<lparr>id' = ''1000'', title = [], content = ''Buy milk'', categoryId = ''life'',
       createdAt = 1001, updatedAt = 1006\<rparr>,
      \<lparr>id' = ''1003'', title = [], content = ''Stretch'', categoryId = ''health'',
       createdAt = 1004, updatedAt = 1005\<rparr>] \<and>
   ''life'' \<in> set (map cid CATEGORIES) \<and> ''health'' \<in> set (map cid CATEGORIES)"
proof -
  note T = saveNote_writes_selectedCategory [of _ _ _ events_own clock_ticking]
  have h: "list_all categoryFromApp events_own"
    by code_simp
  have l: "loadNotes (world (run clock_ticking events_own)) =
     [\<lparr>id' = ''1000'', title = [], content = ''Buy milk'', categoryId = ''life'',
       createdAt = 1001, updatedAt = 1006\<rparr>,
      \<lparr>id' = ''1003'', title = [], content = ''Stretch'', categoryId = ''health'',
       createdAt = 1004, updatedAt = 1005\<rparr>]"
    by code_simp
  have "\<forall>n \<in> set (loadNotes (world (run clock_ticking events_own))). categoryId n \<in> set (map cid CATEGORIES)"
    using T [THEN conjunct2, THEN mp, OF h] by (rule conjunct2 [THEN conjunct1])
  then have m: "''life'' \<in> set (map cid CATEGORIES)" "''health'' \<in> set (map cid CATEGORIES)"
    unfolding l by simp_all
  show ?thesis
    by (intro conjI h l m)
qed

text \<open>
  The claim as first stated fails on a screen opened with the route parameter categoryId
  "archive": the saved note has categoryId "archive", which is none of the three ids.
\<close>

theorem saveNote_category_counterexample:
  "categoryIdParam draft_archive = Some ''archive'' \<and>
   map categoryId (loadNotes (snd (snd (saveNote draft_archive (world_with None clock_still))))) = [''archive''] \<and>
   ''archive'' \<notin> set (map cid CATEGORIES)"
  by code_simp

subsection \<open>Stored content is trimmed\<close>

text \<open>
  Claim C10. In every state the application reaches from an absent item by saving (new
  notes and edits), deleting, reloading on focus and clearing, under any clock and any
  availability of the storage, every note of the stored array, of what loadNotes returns
  and of the \<open>notes\<close> state of HomeScreen has a content that trimming leaves unchanged
  and that has at least one character. What is stored is the trimmed content: for
  "Buy milk " it differs from the content of the draft.
\<close>

theorem persisted_content_trimmed:
  "(\<forall>ns. item (store (world (run clk evs))) = Some (Stringified ns) \<longrightarrow>
      (\<forall>n \<in> set ns. trim (content n) = content n \<and> 1 \<le> length (content n))) \<and>
   (\<forall>n \<in> set (loadNotes (world (run clk evs))). trim (content n) = content n \<and> 1 \<le> length (content n)) \<and>
   (\<forall>n \<in> set (homeNotes (run clk evs)). trim (content n) = content n \<and> 1 \<le> length (content n)) \<and>
   content (last (loadNotes (world (run clock_still [Save draft_padded])))) \<noteq> contentS draft_padded"
proof -
  have inv: "everyNote trimmedContent (run clk evs)"
    by (rule run_trimmed)
  have 1: "\<forall>ns. item (store (world (run clk evs))) = Some (Stringified ns) \<longrightarrow>
      (\<forall>n \<in> set ns. trim (content n) = content n \<and> 1 \<le> length (content n))"
    using inv by (auto simp add: everyNote_def list_all_iff trimmedContent_def)
  have 2: "\<forall>n \<in> set (loadNotes (world (run clk evs))). trim (content n) = content n \<and> 1 \<le> length (content n)"
    using everyNote_loadNotes [OF inv] by (simp add: trimmedContent_def)
  have 3: "\<forall>n \<in> set (homeNotes (run clk evs)). trim (content n) = content n \<and> 1 \<le> length (content n)"
    using inv by (auto simp add: everyNote_def list_all_iff trimmedContent_def)
  have 4: "content (last (loadNotes (world (run clock_still [Save draft_padded])))) \<noteq> contentS draft_padded"
    by code_simp
  show ?thesis
    by (intro conjI 1 2 3 4)
qed

theorem persisted_content_trimmed_witness:
  "item (store (world (run clock_ticking
      [Save draft_padded, Save draft_milk, Focus, Delete ''1003'', Save draft_edit_run]))) =
     Some (Stringified [\<lparr>id' = ''1000'', title = [], content = ''Buy milk'', categoryId = ''life'',
                          createdAt = 1001, updatedAt = 1002\<rparr>]) \<and>
   trim ''Buy milk'' = ''Buy milk'' \<and> 1 \<le> length ''Buy milk'' \<and>
   homeNotes (run clock_ticking [Save draft_padded, Save draft_milk, Focus]) =
     [\<lparr>id' = ''1000'', title = [], content = ''Buy milk'', categoryId = ''life'',
       createdAt = 1001, updatedAt = 1002\<rparr>,
      \<lparr>id' = ''1003'', title = [], content = ''Buy milk'', categoryId = ''life'',
       createdAt = 1004, updatedAt = 1005\<rparr>]"
proof -
  let ?evs = "[Save draft_padded, Save draft_milk, Focus, Delete ''1003'', Save draft_edit_run]"
  let ?A = "\<lparr>id' = ''1000'', title = [], content = ''Buy milk'', categoryId = ''life'',
             createdAt = 1001, updatedAt = 1002\<rparr>"
  note T = persisted_content_trimmed [of clock_ticking ?evs]
  have i: "item (store (world (run clock_ticking ?evs))) = Some (Stringified [?A])"
    by code_simp
  have "\<forall>n \<in> set [?A]. trim (content n) = content n \<and> 1 \<le> length (content n)"
    using T [THEN conjunct1, THEN spec] i by (rule mp)
  then have t: "trim ''Buy milk'' = ''Buy milk''" and n: "1 \<le> length ''Buy milk''"
    by simp_all
  have hm: "homeNotes (run clock_ticking [Save draft_padded, Save draft_milk, Focus]) =
     [?A, \<lparr>id' = ''1003'', title = [], content = ''Buy milk'', categoryId = ''life'',
       createdAt = 1004, updatedAt = 1005\<rparr>]"
    by code_simp
  show ?thesis
    by (intro conjI i t n hm)
qed


end
